theory Spec2Isabelle
  imports Complex_Main "HOL-Library.AList"
begin

section \<open>Python values, exceptions and the timing service's reply\<close>

text \<open>
  The program is \<^verbatim>\<open>bot.py\<close>: a \<^verbatim>\<open>PrayerBot\<close> object (the subscriber list and the
  sent-reminder ledger), the three command handlers \<^verbatim>\<open>start\<close>, \<^verbatim>\<open>today\<close>, \<^verbatim>\<open>stop\<close> and
  the minute tick \<^verbatim>\<open>check_prayer_times\<close>. Everything the code reads from outside (the
  HTTP reply of the timing service, the clock, the file \<^verbatim>\<open>users.json\<close>) is an argument
  of the model; everything it does to the outside (messages, the file) is a result.
\<close>

datatype py_error =
    RequestException | JSONDecodeError | KeyError | TypeError | ValueError | OverflowError
  | ApiException

text \<open>
  What \<^verbatim>\<open>response.json()\<close> can return. A Python \<^verbatim>\<open>int\<close> is unbounded, a finite
  \<^verbatim>\<open>float\<close> is the real number it denotes, the literals \<^verbatim>\<open>NaN\<close> and \<^verbatim>\<open>Infinity\<close>
  (accepted by Python's decoder) are \<open>JNonFinite\<close>. A \<^verbatim>\<open>dict\<close> is the list of its items,
  looked up with \<open>map_of\<close>.
\<close>

datatype json =
    JNull | JBool bool | JInt int | JFloat real | JNonFinite
  | JStr string | JArr "json list" | JObj "(string \<times> json) list"

text \<open>\<^verbatim>\<open>v == n\<close> for a decoded value \<open>v\<close> and an integer literal \<open>n\<close>.\<close>

fun py_eq_int :: "json \<Rightarrow> int \<Rightarrow> bool" where
  "py_eq_int (JInt m) n = (m = n)"
| "py_eq_int (JFloat r) n = (r = of_int n)"
| "py_eq_int (JBool b) n = (n = (if b then 1 else 0))"
| "py_eq_int _ n = False"

text \<open>
  \<^verbatim>\<open>v[k]\<close> with a string key: a lookup in a \<^verbatim>\<open>dict\<close> (KeyError when the key is
  missing), TypeError on a list, a string, a number, a boolean and \<^verbatim>\<open>None\<close>.
\<close>

fun py_getitem :: "json \<Rightarrow> string \<Rightarrow> py_error + json" where
  "py_getitem (JObj items) k =
     (case map_of items k of None \<Rightarrow> Inl KeyError | Some v \<Rightarrow> Inr v)"
| "py_getitem _ k = Inl TypeError"

text \<open>Sequencing of two steps, the first of which may raise.\<close>

definition and_then :: "py_error + 'a \<Rightarrow> ('a \<Rightarrow> py_error + 'b) \<Rightarrow> py_error + 'b" where
  "and_then r f = (case r of Inl e \<Rightarrow> Inl e | Inr x \<Rightarrow> f x)"

text \<open>
  The outcome of \<^verbatim>\<open>requests.get(url, params=params)\<close> followed by \<^verbatim>\<open>response.json()\<close>:
  the request raises, or the body is not JSON, or the body decodes to a value.
\<close>

datatype http_result = Transport_error | Body_not_json | Body json

type_synonym prayers = "(string \<times> json) list"

section \<open>\<^verbatim>\<open>PrayerBot.get_prayer_times\<close>\<close>

text \<open>The body of the \<^verbatim>\<open>try\<close> block: an exception is \<open>Inl\<close>, \<^verbatim>\<open>return None\<close> is \<open>Inr None\<close>.\<close>

definition get_prayer_times_try :: "http_result \<Rightarrow> py_error + prayers option" where
  "get_prayer_times_try response =
     (case response of
        Transport_error \<Rightarrow> Inl RequestException
      | Body_not_json \<Rightarrow> Inl JSONDecodeError
      | Body data \<Rightarrow>
          and_then (py_getitem data ''code'') (\<lambda>code.
          if py_eq_int code 200 then
            and_then (py_getitem data ''data'') (\<lambda>d.
            and_then (py_getitem d ''timings'') (\<lambda>timings.
            and_then (py_getitem timings ''Fajr'') (\<lambda>fajr.
            and_then (py_getitem timings ''Dhuhr'') (\<lambda>dhuhr.
            and_then (py_getitem timings ''Asr'') (\<lambda>asr.
            and_then (py_getitem timings ''Maghrib'') (\<lambda>maghrib.
            and_then (py_getitem timings ''Isha'') (\<lambda>isha.
              Inr (Some [(''Fajr'', fajr), (''Dhuhr'', dhuhr), (''Asr'', asr),
                         (''Maghrib'', maghrib), (''Isha'', isha)]))))))))
          else Inr None))"

text \<open>\<^verbatim>\<open>except Exception\<close>: the error is logged and \<^verbatim>\<open>None\<close> is returned.\<close>

definition get_prayer_times :: "http_result \<Rightarrow> prayers option" where
  "get_prayer_times response =
     (case get_prayer_times_try response of Inl e \<Rightarrow> None | Inr r \<Rightarrow> r)"

definition prayer_names :: "string list" where
  "prayer_names = [''Fajr'', ''Dhuhr'', ''Asr'', ''Maghrib'', ''Isha'']"

text \<open>
  The structure the lookups of \<^verbatim>\<open>get_prayer_times\<close> need (spec, section 6): an object
  with a status code and a nested \<^verbatim>\<open>data.timings\<close> object that has the five prayer
  keys. Nothing is asked of the values under these keys.
\<close>

definition timings_of :: "json \<Rightarrow> (string \<times> json) list option" where
  "timings_of data =
     (case data of
        JObj obj \<Rightarrow>
          (case map_of obj ''data'' of
             Some (JObj d) \<Rightarrow>
               (case map_of d ''timings'' of Some (JObj t) \<Rightarrow> Some t | _ \<Rightarrow> None)
           | _ \<Rightarrow> None)
      | _ \<Rightarrow> None)"

definition status_code :: "json \<Rightarrow> json option" where
  "status_code data = (case data of JObj obj \<Rightarrow> map_of obj ''code'' | _ \<Rightarrow> None)"

definition has_expected_keys :: "json \<Rightarrow> bool" where
  "has_expected_keys data =
     (status_code data \<noteq> None \<and>
      (case timings_of data of
         None \<Rightarrow> False
       | Some t \<Rightarrow> list_all (\<lambda>name. map_of t name \<noteq> None) prayer_names))"

definition status_is_200 :: "json \<Rightarrow> bool" where
  "status_is_200 data = (case status_code data of None \<Rightarrow> False | Some c \<Rightarrow> py_eq_int c 200)"

definition timing :: "json \<Rightarrow> string \<Rightarrow> json option" where
  "timing data name = (case timings_of data of None \<Rightarrow> None | Some t \<Rightarrow> map_of t name)"

section \<open>Dates, times and the time zone\<close>

text \<open>
  The fields of a \<^verbatim>\<open>datetime\<close>, as the local clock shows them. The time zone is kept
  apart (see \<open>pytz_zone\<close>).
\<close>

record pydatetime =
  year :: nat
  month :: nat
  day :: nat
  hour :: nat
  minute :: nat
  second :: nat
  microsecond :: nat

text \<open>
  The day number of a date, as CPython's \<^verbatim>\<open>datetime\<close> computes it
  (\<^verbatim>\<open>_days_before_year\<close>, \<^verbatim>\<open>_days_before_month\<close>, \<^verbatim>\<open>_ymd2ord\<close>): 1 is 0001-01-01.
\<close>

definition is_leap :: "nat \<Rightarrow> bool" where
  "is_leap y = (y mod 4 = 0 \<and> (y mod 100 \<noteq> 0 \<or> y mod 400 = 0))"

definition days_before_year :: "nat \<Rightarrow> int" where
  "days_before_year y =
     (let y1 = int y - 1 in y1 * 365 + y1 div 4 - y1 div 100 + y1 div 400)"

definition days_before_month :: "nat \<Rightarrow> nat \<Rightarrow> int" where
  "days_before_month y m =
     [0, 0, 31, 59, 90, 120, 151, 181, 212, 243, 273, 304, 334] ! m
     + (if m > 2 \<and> is_leap y then 1 else 0)"

definition ymd2ord :: "nat \<Rightarrow> nat \<Rightarrow> nat \<Rightarrow> int" where
  "ymd2ord y m d = days_before_year y + days_before_month y m + int d"

text \<open>Microseconds from the start of day 0 to the wall-clock reading.\<close>

definition wall_us :: "pydatetime \<Rightarrow> int" where
  "wall_us t =
     ((ymd2ord (year t) (month t) (day t) * 86400
       + int (hour t) * 3600 + int (minute t) * 60 + int (second t)) * 1000000
      + int (microsecond t))"

text \<open>
  \<^verbatim>\<open>TIMEZONE = pytz.timezone('Africa/Algiers')\<close>. The code uses the zone in two ways,
  and pytz gives them two offsets from UTC (in seconds):
  \<^item> \<^verbatim>\<open>datetime.now(TIMEZONE)\<close> goes through \<^verbatim>\<open>fromutc\<close> and carries the offset in force
    at that instant, \<open>now_utcoffset\<close>: CET, one hour, all year round since 1981;
  \<^item> \<^verbatim>\<open>replace(tzinfo=TIMEZONE)\<close> attaches the zone object as it is, and the object
    returned by \<^verbatim>\<open>pytz.timezone\<close> reports the first entry of the zone's table,
    \<open>own_utcoffset\<close>: for Algiers the local mean time 0:12:12, which pytz rounds to
    the minute.
\<close>

record pytz_zone =
  now_utcoffset :: int
  own_utcoffset :: int

definition TIMEZONE :: pytz_zone where
  "TIMEZONE = \<lparr>now_utcoffset = 3600, own_utcoffset = 720\<rparr>"

text \<open>\<^verbatim>\<open>now.strftime("%Y-%m-%d")\<close>, for the years 1000 to 9999.\<close>

definition digit_char :: "nat \<Rightarrow> char" where
  "digit_char n = ''0123456789'' ! (n mod 10)"

definition strftime_Ymd :: "pydatetime \<Rightarrow> string" where
  "strftime_Ymd t =
     [digit_char (year t div 1000), digit_char (year t div 100),
      digit_char (year t div 10), digit_char (year t)] @ ''-'' @
     [digit_char (month t div 10), digit_char (month t)] @ ''-'' @
     [digit_char (day t div 10), digit_char (day t)]"

text \<open>
  \<^verbatim>\<open>datetime.strptime(s, "%H:%M")\<close>. CPython turns the format into the regular
  expression \<^verbatim>\<open>(?P<H>2[0-3]|[0-1]\d|\d):(?P<M>[0-5]\d|\d)\<close>, matches it at the start of
  the string, alternatives in this order, and raises ValueError when nothing matches
  or when the match leaves text unread. A value that is not a string raises TypeError.
  Strings here are over the code points below 256, where \<^verbatim>\<open>\d\<close> is \<open>0\<close> to \<open>9\<close>.
\<close>

definition digit_of :: "char \<Rightarrow> nat option" where
  "digit_of c =
     map_of [(CHR ''0'', 0), (CHR ''1'', 1), (CHR ''2'', 2), (CHR ''3'', 3), (CHR ''4'', 4),
             (CHR ''5'', 5), (CHR ''6'', 6), (CHR ''7'', 7), (CHR ''8'', 8), (CHR ''9'', 9)] c"

text \<open>
  One alternative of two characters: a digit between \<open>first_from\<close> and \<open>first_to\<close>,
  then a digit up to \<open>second_to\<close>; the result is the number read and the text after it.
\<close>

definition two_digits :: "nat \<Rightarrow> nat \<Rightarrow> nat \<Rightarrow> string \<Rightarrow> (nat \<times> string) list" where
  "two_digits first_from first_to second_to s =
     (case s of
        c1 # c2 # rest \<Rightarrow>
          (case (digit_of c1, digit_of c2) of
             (Some a, Some b) \<Rightarrow>
               if first_from \<le> a \<and> a \<le> first_to \<and> b \<le> second_to
               then [(10 * a + b, rest)] else []
           | _ \<Rightarrow> [])
      | _ \<Rightarrow> [])"

definition one_digit :: "string \<Rightarrow> (nat \<times> string) list" where
  "one_digit s =
     (case s of
        c # rest \<Rightarrow> (case digit_of c of Some a \<Rightarrow> [(a, rest)] | None \<Rightarrow> [])
      | [] \<Rightarrow> [])"

definition match_H :: "string \<Rightarrow> (nat \<times> string) list" where
  "match_H s = two_digits 2 2 3 s @ two_digits 0 1 9 s @ one_digit s"

definition match_M :: "string \<Rightarrow> (nat \<times> string) list" where
  "match_M s = two_digits 0 5 9 s @ one_digit s"

definition match_colon :: "string \<Rightarrow> string list" where
  "match_colon s = (case s of c # rest \<Rightarrow> if c = CHR '':'' then [rest] else [] | [] \<Rightarrow> [])"

definition match_HM :: "string \<Rightarrow> (nat \<times> nat \<times> string) list" where
  "match_HM s =
     concat (map (\<lambda>(h, r1).
       concat (map (\<lambda>r2.
         map (\<lambda>(m, r3). (h, m, r3)) (match_M r2)) (match_colon r1))) (match_H s))"

definition strptime_HM :: "json \<Rightarrow> py_error + nat \<times> nat" where
  "strptime_HM v =
     (case v of
        JStr s \<Rightarrow>
          (case match_HM s of
             [] \<Rightarrow> Inl ValueError
           | (h, m, unread) # _ \<Rightarrow> if unread = [] then Inr (h, m) else Inl ValueError)
      | _ \<Rightarrow> Inl TypeError)"

section \<open>The bot: subscribers, ledger and the persisted file\<close>

text \<open>
  The texts the bot sends, by their template: the reminder carries the prayer's name and
  its time string, the reply of \<^verbatim>\<open>/today\<close> the time-table.
\<close>

datatype message =
    Reminder string json | Welcome | Today_times prayers | Fetch_failed
  | Reminders_stopped | Not_subscribed

text \<open>
  \<^verbatim>\<open>users.json\<close>, when it exists: either text that \<^verbatim>\<open>json.load\<close> rejects, or a JSON array
  of chat identifiers (spec, section 6). Chat identifiers are integers.
\<close>

datatype file_content = Unparseable | Array "int list"

text \<open>
  The attributes of the \<^verbatim>\<open>PrayerBot\<close> object, and the file it owns (\<open>None\<close>: no file).
  The ledger \<^verbatim>\<open>sent_reminders\<close> is a \<^verbatim>\<open>dict\<close> from date keys to lists of reminder keys.
\<close>

record bot_state =
  users :: "int list"
  sent_reminders :: "(string \<times> string list) list"
  users_file :: "file_content option"

definition load_users :: "file_content option \<Rightarrow> py_error + int list" where
  "load_users file =
     (case file of
        Some content \<Rightarrow>
          (case content of Unparseable \<Rightarrow> Inl JSONDecodeError | Array ids \<Rightarrow> Inr ids)
      | None \<Rightarrow> Inr [])"

text \<open>\<^verbatim>\<open>PrayerBot.__init__\<close>, run once when the module is loaded: an exception ends the process.\<close>

definition PrayerBot_init :: "file_content option \<Rightarrow> py_error + bot_state" where
  "PrayerBot_init file =
     and_then (load_users file) (\<lambda>ids.
       Inr \<lparr>users = ids, sent_reminders = [], users_file = file\<rparr>)"

definition save_users :: "bot_state \<Rightarrow> bot_state" where
  "save_users st = st\<lparr>users_file := Some (Array (users st))\<rparr>"

text \<open>
  \<^verbatim>\<open>send_reminder\<close>: one send per subscriber, in the list's order. A send that raises is
  caught inside the loop and logged, so the call always returns; the result is the list
  of sends attempted.
\<close>

definition send_reminder :: "int list \<Rightarrow> string \<Rightarrow> json \<Rightarrow> (int \<times> message) list" where
  "send_reminder ids prayer_name prayer_time =
     map (\<lambda>chat_id. (chat_id, Reminder prayer_name prayer_time)) ids"

section \<open>\<^verbatim>\<open>PrayerBot.check_prayer_times\<close>\<close>

text \<open>
  \<^verbatim>\<open>prayer_time - timedelta(hours=1)\<close>, as a wall-clock reading in microseconds; the
  zone attached to it stays \<^verbatim>\<open>TIMEZONE\<close>. \<^verbatim>\<open>prayer_time\<close> is the parsed hour and minute
  on the date of \<^verbatim>\<open>now\<close>. Python raises OverflowError when the result is before year 1.
\<close>

definition reminder_time :: "pydatetime \<Rightarrow> nat \<times> nat \<Rightarrow> py_error + int" where
  "reminder_time now hm =
     (let prayer_time = \<lparr>year = year now, month = month now, day = day now,
                         hour = fst hm, minute = snd hm, second = 0, microsecond = 0\<rparr>;
          r = wall_us prayer_time - 3600 * 1000000
      in if r < 86400 * 1000000 then Inl OverflowError else Inr r)"

text \<open>
  \<^verbatim>\<open>abs((now - reminder_time).total_seconds())\<close>, in microseconds. The two operands carry
  different \<^verbatim>\<open>tzinfo\<close> objects, so Python subtracts after converting both to UTC:
  the difference of the wall-clock readings, plus the offset of \<^verbatim>\<open>reminder_time\<close>, minus
  the offset of \<^verbatim>\<open>now\<close>. \<^verbatim>\<open>total_seconds()\<close> divides the microseconds by \<open>10^6\<close>, and
  the quotient is below 60 exactly when the microseconds are below \<open>60 * 10^6\<close>.
\<close>

definition time_diff_us :: "pytz_zone \<Rightarrow> pydatetime \<Rightarrow> int \<Rightarrow> int" where
  "time_diff_us tz now reminder =
     \<bar>wall_us now - reminder + (own_utcoffset tz - now_utcoffset tz) * 1000000\<bar>"

type_synonym reminder_call = "string \<times> json \<times> (int \<times> message) list"

text \<open>
  The body of the \<^verbatim>\<open>for\<close> loop, for one item of \<^verbatim>\<open>prayers\<close>: the ledger after it, the
  calls of \<^verbatim>\<open>send_reminder\<close> it made (none or one), and the exception it raised, if any.
\<close>

definition remind_step ::
  "pytz_zone \<Rightarrow> pydatetime \<Rightarrow> string \<Rightarrow> int list \<Rightarrow> string \<times> json \<Rightarrow>
   (string \<times> string list) list \<Rightarrow>
   (string \<times> string list) list \<times> reminder_call list \<times> py_error option" where
  "remind_step tz now today_key ids item ledger =
     (case item of (prayer_name, prayer_time_str) \<Rightarrow>
        (case strptime_HM prayer_time_str of
           Inl e \<Rightarrow> (ledger, [], Some e)
         | Inr hm \<Rightarrow>
             (case reminder_time now hm of
                Inl e \<Rightarrow> (ledger, [], Some e)
              | Inr reminder \<Rightarrow>
                  let reminder_key = today_key @ ''-'' @ prayer_name in
                  if time_diff_us tz now reminder < 60 * 1000000 then
                    (case map_of ledger today_key of
                       None \<Rightarrow> (ledger, [], Some KeyError)
                     | Some notified \<Rightarrow>
                         if reminder_key \<notin> set notified then
                           (AList.update today_key (notified @ [reminder_key]) ledger,
                            [(prayer_name, prayer_time_str,
                              send_reminder ids prayer_name prayer_time_str)],
                            None)
                         else (ledger, [], None))
                  else (ledger, [], None))))"

fun remind_loop ::
  "pytz_zone \<Rightarrow> pydatetime \<Rightarrow> string \<Rightarrow> int list \<Rightarrow> prayers \<Rightarrow>
   (string \<times> string list) list \<Rightarrow>
   (string \<times> string list) list \<times> reminder_call list \<times> py_error option" where
  "remind_loop tz now today_key ids [] ledger = (ledger, [], None)"
| "remind_loop tz now today_key ids (item # rest) ledger =
     (case remind_step tz now today_key ids item ledger of
        (ledger1, calls1, Some e) \<Rightarrow> (ledger1, calls1, Some e)
      | (ledger1, calls1, None) \<Rightarrow>
          (case remind_loop tz now today_key ids rest ledger1 of
             (ledger2, calls2, err) \<Rightarrow> (ledger2, calls1 @ calls2, err)))"

text \<open>
  One tick. The arguments are what the tick reads: the reply of the timing service and
  the clock. The result is the state after the tick, the calls of \<^verbatim>\<open>send_reminder\<close> in
  order, and the exception that left \<^verbatim>\<open>check_prayer_times\<close>, if any (the changes made
  before it stay).
\<close>

definition reset_ledger :: "string \<Rightarrow> (string \<times> string list) list \<Rightarrow> (string \<times> string list) list" where
  "reset_ledger today_key ledger =
     (if map_of ledger today_key = None then [(today_key, [])] else ledger)"

definition check_prayer_times ::
  "pytz_zone \<Rightarrow> http_result \<Rightarrow> pydatetime \<Rightarrow> bot_state \<Rightarrow>
   bot_state \<times> reminder_call list \<times> py_error option" where
  "check_prayer_times tz response now st =
     (case get_prayer_times response of
        None \<Rightarrow> (st, [], None)
      | Some prayers \<Rightarrow>
          if prayers = [] then (st, [], None)
          else
            let today_key = strftime_Ymd now;
                ledger = reset_ledger today_key (sent_reminders st)
            in (case remind_loop tz now today_key (users st) prayers ledger of
                  (ledger', calls, err) \<Rightarrow> (st\<lparr>sent_reminders := ledger'\<rparr>, calls, err)))"

section \<open>The command handlers\<close>

text \<open>
  Each handler ends with \<^verbatim>\<open>bot.reply_to\<close>; \<open>reply_error\<close> is the exception that call
  raises, if any. No handler has a \<^verbatim>\<open>try\<close>, so that exception leaves the handler.
  Writing the file is taken to succeed.
\<close>

definition start :: "int \<Rightarrow> py_error option \<Rightarrow> bot_state \<Rightarrow> bot_state \<times> message \<times> py_error option" where
  "start chat_id reply_error st =
     (let st' = (if chat_id \<notin> set (users st)
                 then save_users (st\<lparr>users := users st @ [chat_id]\<rparr>)
                 else st)
      in (st', Welcome, reply_error))"

definition today :: "http_result \<Rightarrow> py_error option \<Rightarrow> message \<times> py_error option" where
  "today response reply_error =
     (case get_prayer_times response of
        None \<Rightarrow> (Fetch_failed, reply_error)
      | Some prayers \<Rightarrow>
          if prayers = [] then (Fetch_failed, reply_error)
          else (Today_times prayers, reply_error))"

definition stop :: "int \<Rightarrow> py_error option \<Rightarrow> bot_state \<Rightarrow> bot_state \<times> message \<times> py_error option" where
  "stop chat_id reply_error st =
     (if chat_id \<in> set (users st)
      then (save_users (st\<lparr>users := remove1 chat_id (users st)\<rparr>), Reminders_stopped, reply_error)
      else (st, Not_subscribed, reply_error))"

section \<open>Runs of the process\<close>

text \<open>
  What happens to a running bot: a tick of the scheduler, or one of the three commands
  from a chat. The scheduler and the polling loop go on after a tick or a handler that
  raised.
\<close>

datatype event =
    Tick http_result pydatetime
  | Start_command int "py_error option"
  | Today_command int http_result "py_error option"
  | Stop_command int "py_error option"

datatype effect =
    Send_reminder string json "(int \<times> message) list"
  | Reply int message
  | Raised py_error

definition raised_effect :: "py_error option \<Rightarrow> effect list" where
  "raised_effect err = (case err of None \<Rightarrow> [] | Some e \<Rightarrow> [Raised e])"

definition step :: "pytz_zone \<Rightarrow> event \<Rightarrow> bot_state \<Rightarrow> bot_state \<times> effect list" where
  "step tz ev st =
     (case ev of
        Tick response now \<Rightarrow>
          (case check_prayer_times tz response now st of
             (st', calls, err) \<Rightarrow>
               (st', map (\<lambda>(n, t, sends). Send_reminder n t sends) calls @ raised_effect err))
      | Start_command chat_id reply_error \<Rightarrow>
          (case start chat_id reply_error st of
             (st', reply, err) \<Rightarrow> (st', Reply chat_id reply # raised_effect err))
      | Today_command chat_id response reply_error \<Rightarrow>
          (case today response reply_error of
             (reply, err) \<Rightarrow> (st, Reply chat_id reply # raised_effect err))
      | Stop_command chat_id reply_error \<Rightarrow>
          (case stop chat_id reply_error st of
             (st', reply, err) \<Rightarrow> (st', Reply chat_id reply # raised_effect err)))"

fun run :: "pytz_zone \<Rightarrow> event list \<Rightarrow> bot_state \<Rightarrow> bot_state \<times> effect list" where
  "run tz [] st = (st, [])"
| "run tz (ev # evs) st =
     (case step tz ev st of
        (st1, effects1) \<Rightarrow>
          (case run tz evs st1 of (st2, effects2) \<Rightarrow> (st2, effects1 @ effects2)))"

section \<open>Notions used to state the properties\<close>

text \<open>
  The specification's time string (sections 3 and 4.2): hour and minute of a 24-hour
  clock, written HH:MM. A payload is well formed when it has the expected keys and the
  value of each of the five prayers is such a string; otherwise it is malformed.
\<close>

definition is_time_string :: "json \<Rightarrow> bool" where
  "is_time_string v =
     (case v of
        JStr s \<Rightarrow>
          (case s of
             [h1, h2, c, m1, m2] \<Rightarrow>
               c = CHR '':'' \<and>
               (case (digit_of h1, digit_of h2, digit_of m1, digit_of m2) of
                  (Some a, Some b, Some x, Some y) \<Rightarrow> 10 * a + b < 24 \<and> 10 * x + y < 60
                | _ \<Rightarrow> False)
           | _ \<Rightarrow> False)
      | _ \<Rightarrow> False)"

definition well_formed :: "json \<Rightarrow> bool" where
  "well_formed data =
     (has_expected_keys data \<and>
      list_all (\<lambda>name. case timing data name of None \<Rightarrow> False | Some v \<Rightarrow> is_time_string v)
        prayer_names)"

text \<open>The key the loop stores for a prayer: \<^verbatim>\<open>f"{today_key}-{prayer_name}"\<close>.\<close>

definition reminder_key :: "string \<Rightarrow> string \<Rightarrow> string" where
  "reminder_key today_key prayer_name = today_key @ ''-'' @ prayer_name"

text \<open>Today's entry of the ledger; an absent entry holds no key.\<close>

definition notified_today :: "string \<Rightarrow> (string \<times> string list) list \<Rightarrow> string list" where
  "notified_today today_key ledger =
     (case map_of ledger today_key of None \<Rightarrow> [] | Some notified \<Rightarrow> notified)"

text \<open>How often \<^verbatim>\<open>send_reminder\<close> was called for the prayer \<open>p\<close>.\<close>

definition calls_for :: "string \<Rightarrow> reminder_call list \<Rightarrow> nat" where
  "calls_for p calls = length (filter (\<lambda>(n, t, sends). n = p) calls)"

definition sends_for :: "string \<Rightarrow> effect list \<Rightarrow> nat" where
  "sends_for p effects =
     length (filter (\<lambda>e. case e of Send_reminder n t sends \<Rightarrow> n = p | _ \<Rightarrow> False) effects)"

text \<open>An event of the calendar day \<open>d\<close>: a tick whose clock shows that date, or a command.\<close>

definition on_day :: "nat \<times> nat \<times> nat \<Rightarrow> event \<Rightarrow> bool" where
  "on_day d ev =
     (case ev of Tick response now \<Rightarrow> (year now, month now, day now) = d | _ \<Rightarrow> True)"

definition date_key :: "nat \<times> nat \<times> nat \<Rightarrow> string" where
  "date_key d =
     (case d of (y, m, dd) \<Rightarrow>
        strftime_Ymd \<lparr>year = y, month = m, day = dd, hour = 0, minute = 0, second = 0,
                      microsecond = 0\<rparr>)"

text \<open>1 when today's entry holds the key of \<open>p\<close>, else 0.\<close>

definition marked :: "string \<Rightarrow> string \<Rightarrow> (string \<times> string list) list \<Rightarrow> nat" where
  "marked today_key p ledger =
     (if reminder_key today_key p \<in> set (notified_today today_key ledger) then 1 else 0)"

text \<open>
  The loop body raises nothing on the time string \<open>t\<close>; and the time comparison of the
  loop holds for \<open>t\<close>: \<^verbatim>\<open>time_diff < 60\<close>, the first half of the loop's \<^verbatim>\<open>if\<close>, as the code
  computes it (with the zone's two offsets, so not the specification's window in general).
\<close>

definition parses :: "pydatetime \<Rightarrow> json \<Rightarrow> bool" where
  "parses now t =
     (case strptime_HM t of
        Inl e \<Rightarrow> False
      | Inr hm \<Rightarrow> (case reminder_time now hm of Inl e \<Rightarrow> False | Inr r \<Rightarrow> True))"

definition due :: "pytz_zone \<Rightarrow> pydatetime \<Rightarrow> json \<Rightarrow> bool" where
  "due tz now t =
     (case strptime_HM t of
        Inl e \<Rightarrow> False
      | Inr hm \<Rightarrow>
          (case reminder_time now hm of
             Inl e \<Rightarrow> False
           | Inr r \<Rightarrow> time_diff_us tz now r < 60 * 1000000))"

definition time_of_day_us :: "pydatetime \<Rightarrow> int" where
  "time_of_day_us t =
     (int (hour t) * 3600 + int (minute t) * 60 + int (second t)) * 1000000
     + int (microsecond t)"

text \<open>
  Insertion times, from the history alone. The identifiers loaded at startup are stamped
  with their positions; the event number \<open>i\<close> stamps an identifier that \<^verbatim>\<open>/start\<close> finds
  without a stamp, and \<^verbatim>\<open>/stop\<close> takes the stamp away.
\<close>

definition initial_stamps :: "int list \<Rightarrow> (int \<rightharpoonup> nat)" where
  "initial_stamps ids = map_of (zip ids [0..<length ids])"

fun insertion_stamps :: "nat \<Rightarrow> event list \<Rightarrow> (int \<rightharpoonup> nat) \<Rightarrow> (int \<rightharpoonup> nat)" where
  "insertion_stamps i [] m = m"
| "insertion_stamps i (ev # evs) m =
     insertion_stamps (Suc i) evs
       (case ev of
          Start_command c e \<Rightarrow> (if m c = None then m(c \<mapsto> i) else m)
        | Stop_command c e \<Rightarrow> m(c := None)
        | _ \<Rightarrow> m)"

definition inserted_before :: "(int \<rightharpoonup> nat) \<Rightarrow> int \<Rightarrow> int \<Rightarrow> bool" where
  "inserted_before m a b =
     (case (m a, m b) of (Some i, Some j) \<Rightarrow> i < j | _ \<Rightarrow> False)"

text \<open>
  The list against the insertion times: the identifiers that have a stamp, each once,
  earlier stamps first, all stamps below the number \<open>i\<close> of the next event.
\<close>

definition in_insertion_order :: "nat \<Rightarrow> int list \<Rightarrow> (int \<rightharpoonup> nat) \<Rightarrow> bool" where
  "in_insertion_order i ids m =
     (distinct ids \<and> set ids = dom m \<and> sorted_wrt (inserted_before m) ids \<and>
      (\<forall>x j. m x = Some j \<longrightarrow> j < i))"

section \<open>The scenario of the specification\<close>

text \<open>
  The time-table of the specification's scenario (section 8), as the timing service
  sends it, and a clock reading on 4 November 2026.
\<close>

definition scenario_payload :: json where
  "scenario_payload =
     JObj [(''code'', JInt 200), (''status'', JStr ''OK''),
           (''data'', JObj [(''timings'',
              JObj [(''Fajr'', JStr ''05:00''), (''Sunrise'', JStr ''06:30''),
                    (''Dhuhr'', JStr ''12:30''), (''Asr'', JStr ''16:00''),
                    (''Maghrib'', JStr ''18:45''), (''Isha'', JStr ''20:00'')])])]"

text \<open>
  A reply with status 200 and the five keys, three of them with values that are no time
  strings.
\<close>

definition unvalidated_payload :: json where
  "unvalidated_payload =
     JObj [(''code'', JInt 200),
           (''data'', JObj [(''timings'',
              JObj [(''Fajr'', JInt 500), (''Dhuhr'', JNull),
                    (''Asr'', JStr ''16:00''), (''Maghrib'', JStr ''18:45''),
                    (''Isha'', JBool False)])])]"

text \<open>The same time-table with an Asr time that is not of the form HH:MM.\<close>

definition unparseable_time_payload :: json where
  "unparseable_time_payload =
     JObj [(''code'', JInt 200),
           (''data'', JObj [(''timings'',
              JObj [(''Fajr'', JStr ''05:00''), (''Dhuhr'', JStr ''12:30''),
                    (''Asr'', JStr ''16h00''), (''Maghrib'', JStr ''18:45''),
                    (''Isha'', JStr ''20:00'')])])]"

definition clock :: "nat \<Rightarrow> nat \<Rightarrow> nat \<Rightarrow> pydatetime" where
  "clock h m s =
     \<lparr>year = 2026, month = 11, day = 4, hour = h, minute = m, second = s, microsecond = 0\<rparr>"

section \<open>Properties of the time-table fetch\<close>

lemma and_then_simps [simp]:
  "and_then (Inl e) f = Inl e" "and_then (Inr x) f = f x"
  by (simp_all add: and_then_def)

lemma py_getitem_Inr:
  "(py_getitem v k = Inr x) = (\<exists>items. v = JObj items \<and> map_of items k = Some x)"
  by (cases v) (auto split: option.splits)

text \<open>The fetch succeeds on exactly one shape of reply.\<close>

lemma get_prayer_times_Some:
  "(get_prayer_times (Body data) = Some ps) =
   (\<exists>obj code d t fajr dhuhr asr maghrib isha.
      data = JObj obj \<and> map_of obj ''code'' = Some code \<and> py_eq_int code 200 \<and>
      map_of obj ''data'' = Some (JObj d) \<and> map_of d ''timings'' = Some (JObj t) \<and>
      map_of t ''Fajr'' = Some fajr \<and> map_of t ''Dhuhr'' = Some dhuhr \<and>
      map_of t ''Asr'' = Some asr \<and> map_of t ''Maghrib'' = Some maghrib \<and>
      map_of t ''Isha'' = Some isha \<and>
      ps = [(''Fajr'', fajr), (''Dhuhr'', dhuhr), (''Asr'', asr),
            (''Maghrib'', maghrib), (''Isha'', isha)])"
  unfolding get_prayer_times_def get_prayer_times_try_def
  apply (simp add: and_then_def py_getitem_Inr split: sum.splits option.splits)
  apply (auto simp: py_getitem_Inr)
  done

lemma get_prayer_times_no_body [simp]:
  "get_prayer_times Transport_error = None" "get_prayer_times Body_not_json = None"
  by (simp_all add: get_prayer_times_def get_prayer_times_try_def)

lemma expected_keys_200_iff:
  "(has_expected_keys data \<and> status_is_200 data) =
   (\<exists>obj code d t fajr dhuhr asr maghrib isha.
      data = JObj obj \<and> map_of obj ''code'' = Some code \<and> py_eq_int code 200 \<and>
      map_of obj ''data'' = Some (JObj d) \<and> map_of d ''timings'' = Some (JObj t) \<and>
      map_of t ''Fajr'' = Some fajr \<and> map_of t ''Dhuhr'' = Some dhuhr \<and>
      map_of t ''Asr'' = Some asr \<and> map_of t ''Maghrib'' = Some maghrib \<and>
      map_of t ''Isha'' = Some isha)"
  unfolding has_expected_keys_def status_is_200_def status_code_def timings_of_def
    prayer_names_def
  by (auto split: json.splits option.splits)

lemma get_prayer_times_names:
  "get_prayer_times response = Some ps \<Longrightarrow> map fst ps = prayer_names"
  by (cases response) (auto simp: get_prayer_times_Some prayer_names_def)

lemma scenario_fetch:
  "get_prayer_times (Body scenario_payload) =
     Some [(''Fajr'', JStr ''05:00''), (''Dhuhr'', JStr ''12:30''), (''Asr'', JStr ''16:00''),
           (''Maghrib'', JStr ''18:45''), (''Isha'', JStr ''20:00'')]"
  by (simp add: get_prayer_times_def get_prayer_times_try_def scenario_payload_def)

text \<open>The values of a fetched time-table are those of the payload.\<close>

lemma fetched_values:
  "get_prayer_times (Body data) = Some ps \<Longrightarrow>
   map fst ps = prayer_names \<and> list_all (\<lambda>(name, v). timing data name = Some v) ps"
  unfolding get_prayer_times_Some
  by (auto simp: prayer_names_def timing_def timings_of_def)

text \<open>A time string of the specification is one \<^verbatim>\<open>strptime\<close> accepts.\<close>

lemma digit_of_bound: "digit_of c = Some a \<Longrightarrow> a \<le> 9 \<and> c \<noteq> CHR '':''"
  by (auto simp: digit_of_def split: if_splits)

lemma time_string_parses:
  assumes "is_time_string v"
  shows "\<exists>h m. strptime_HM v = Inr (h, m) \<and> h < 24 \<and> m < 60"
proof -
  from assms obtain h1 h2 m1 m2 a b x y where
    v: "v = JStr [h1, h2, CHR '':'', m1, m2]"
    and d: "digit_of h1 = Some a" "digit_of h2 = Some b" "digit_of m1 = Some x"
      "digit_of m2 = Some y"
    and r: "10 * a + b < 24" "10 * x + y < 60"
    by (auto simp: is_time_string_def split: json.splits list.splits option.splits)
  from d have bnd: "a \<le> 9" "b \<le> 9" "x \<le> 9" "y \<le> 9" "h2 \<noteq> CHR '':''"
    by (auto dest: digit_of_bound)
  from r bnd have x5: "x \<le> 5" by simp
  from r bnd have "(a = 2 \<and> b \<le> 3) \<or> a \<le> 1" by arith
  then have "strptime_HM v = Inr (10 * a + b, 10 * x + y)"
    using v d bnd x5
    by (auto simp: strptime_HM_def match_HM_def match_H_def match_M_def match_colon_def
        two_digits_def one_digit_def)
  with r show ?thesis by blast
qed

text \<open>
  Claim C4 says that the fetch returns a mapping of the five names to time strings or
  the failure value, and the failure value whenever the payload is malformed. The code
  looks the five keys up and checks nothing about their values: on this reply, whose
  Fajr, Dhuhr and Isha are a number, \<^verbatim>\<open>null\<close> and \<^verbatim>\<open>false\<close>, it returns a mapping that
  holds these values.
\<close>

theorem unvalidated_timings_are_returned:
  "\<not> well_formed unvalidated_payload \<and>
   get_prayer_times (Body unvalidated_payload) =
     Some [(''Fajr'', JInt 500), (''Dhuhr'', JNull), (''Asr'', JStr ''16:00''),
           (''Maghrib'', JStr ''18:45''), (''Isha'', JBool False)] \<and>
   \<not> is_time_string (JInt 500) \<and> \<not> is_time_string JNull \<and> \<not> is_time_string (JBool False)"
  by (simp add: get_prayer_times_def get_prayer_times_try_def unvalidated_payload_def
      well_formed_def has_expected_keys_def status_code_def timings_of_def timing_def
      prayer_names_def is_time_string_def)

text \<open>
  Claim C4, amended. \<^verbatim>\<open>get_prayer_times\<close> returns the failure value \<open>None\<close> on a
  transport error and on a body that is not JSON. On a decoded body it returns either
  \<open>None\<close> or a mapping whose keys are exactly Fajr, Dhuhr, Asr, Maghrib, Isha, in this
  order, each with the value the payload's \<^verbatim>\<open>data.timings\<close> has for it, whatever that
  value is. It returns the mapping exactly when the payload has the expected keys (a
  status code and the five keys under \<^verbatim>\<open>data.timings\<close>) and its status code equals 200:
  a status other than 200 and a payload that lacks the status code, the timings object
  or a prayer key give \<open>None\<close>. The values of the mapping are time strings exactly when
  the payload is well formed.
\<close>

theorem get_prayer_times_contract:
  "get_prayer_times Transport_error = None \<and>
   get_prayer_times Body_not_json = None \<and>
   (case get_prayer_times (Body data) of
      None \<Rightarrow> \<not> (has_expected_keys data \<and> status_is_200 data)
    | Some ps \<Rightarrow>
        has_expected_keys data \<and> status_is_200 data \<and> map fst ps = prayer_names \<and>
        list_all (\<lambda>(name, v). timing data name = Some v) ps \<and>
        well_formed data = list_all (\<lambda>(name, v). is_time_string v) ps)"
proof -
  have inner: "case get_prayer_times (Body data) of
      None \<Rightarrow> \<not> (has_expected_keys data \<and> status_is_200 data)
    | Some ps \<Rightarrow>
        has_expected_keys data \<and> status_is_200 data \<and> map fst ps = prayer_names \<and>
        list_all (\<lambda>(name, v). timing data name = Some v) ps \<and>
        well_formed data = list_all (\<lambda>(name, v). is_time_string v) ps"
  proof (cases "get_prayer_times (Body data)")
    case None
    have "\<not> (has_expected_keys data \<and> status_is_200 data)"
    proof
      assume "has_expected_keys data \<and> status_is_200 data"
      then obtain ps where "get_prayer_times (Body data) = Some ps"
        unfolding expected_keys_200_iff get_prayer_times_Some by blast
      with None show False by simp
    qed
    with None show ?thesis by simp
  next
    case (Some ps)
    then have keys: "has_expected_keys data \<and> status_is_200 data"
      unfolding expected_keys_200_iff get_prayer_times_Some by blast
    note vals = fetched_values [OF Some]
    have "well_formed data = list_all (\<lambda>(name, v). is_time_string v) ps"
    proof -
      from vals have names: "prayer_names = map fst ps"
        and same: "\<forall>(name, v) \<in> set ps. timing data name = Some v"
        by (simp_all add: list_all_iff)
      have "list_all (\<lambda>name. case timing data name of None \<Rightarrow> False | Some v \<Rightarrow> is_time_string v)
              (map fst ps) = list_all (\<lambda>(name, v). is_time_string v) ps"
        using same by (induction ps) auto
      with keys names show ?thesis by (simp add: well_formed_def)
    qed
    with keys vals Some show ?thesis by simp
  qed
  then show ?thesis by simp
qed

theorem get_prayer_times_contract_witness:
  "has_expected_keys scenario_payload \<and> status_is_200 scenario_payload \<and>
   well_formed scenario_payload \<and>
   map_option (map fst) (get_prayer_times (Body scenario_payload)) = Some prayer_names \<and>
   \<not> has_expected_keys (JObj [(''code'', JInt 200), (''data'', JObj [(''timings'', JObj [])])]) \<and>
   get_prayer_times (Body (JObj [(''code'', JInt 200), (''data'', JObj [(''timings'', JObj [])])]))
     = None \<and>
   \<not> status_is_200 (JObj [(''code'', JInt 404)]) \<and>
   get_prayer_times (Body (JObj [(''code'', JInt 404)])) = None"
proof -
  have k: "has_expected_keys scenario_payload" "status_is_200 scenario_payload"
    by (simp_all add: has_expected_keys_def status_is_200_def status_code_def timings_of_def
        prayer_names_def scenario_payload_def)
  have w: "well_formed scenario_payload"
    using k(1)
    by (simp add: well_formed_def timing_def timings_of_def prayer_names_def
        scenario_payload_def is_time_string_def digit_of_def)
  have n: "\<not> has_expected_keys
      (JObj [(''code'', JInt 200), (''data'', JObj [(''timings'', JObj [])])])"
    "\<not> status_is_200 (JObj [(''code'', JInt 404)])"
    by (simp_all add: has_expected_keys_def status_is_200_def status_code_def timings_of_def
        prayer_names_def)
  from get_prayer_times_contract [of scenario_payload]
    get_prayer_times_contract
      [of "JObj [(''code'', JInt 200), (''data'', JObj [(''timings'', JObj [])])]"]
    get_prayer_times_contract [of "JObj [(''code'', JInt 404)]"] k w n
  show ?thesis by (simp add: scenario_fetch prayer_names_def split: option.splits)
qed

section \<open>The tick whose fetch fails\<close>

text \<open>
  Claim C5. A tick whose time-table fetch returns the failure value calls
  \<^verbatim>\<open>send_reminder\<close> for no prayer, returns without raising, and leaves the whole state
  as it was: the subscriber list, the ledger and the persisted file.
\<close>

theorem failed_fetch_changes_nothing:
  "get_prayer_times response = None \<Longrightarrow>
   check_prayer_times tz response now st = (st, [], None) \<and>
   step tz (Tick response now) st = (st, [])"
  by (simp add: check_prayer_times_def step_def raised_effect_def)

theorem failed_fetch_changes_nothing_witness:
  "get_prayer_times Transport_error = None \<and>
   check_prayer_times TIMEZONE Transport_error (clock 15 0 10)
     \<lparr>users = [1, 2], sent_reminders = [(''2026-11-03'', [''2026-11-03-Asr''])],
      users_file = Some (Array [1, 2])\<rparr>
   = (\<lparr>users = [1, 2], sent_reminders = [(''2026-11-03'', [''2026-11-03-Asr''])],
      users_file = Some (Array [1, 2])\<rparr>, [], None)"
  using failed_fetch_changes_nothing [of Transport_error TIMEZONE "clock 15 0 10"
     "\<lparr>users = [1, 2], sent_reminders = [(''2026-11-03'', [''2026-11-03-Asr''])],
      users_file = Some (Array [1, 2])\<rparr>"]
  by simp

section \<open>Loading the subscribers\<close>

text \<open>
  Claim C9. \<^verbatim>\<open>load_users\<close> returns the empty list when there is no file and the
  parsed content when the file parses. On a file that does not parse it raises
  (JSONDecodeError) instead of returning the empty list, and since the call stands in
  \<^verbatim>\<open>PrayerBot.__init__\<close>, run when the module is loaded, no bot is created: the
  start of the process fails with that error.
\<close>

theorem load_users_contract:
  "load_users None = Inr [] \<and>
   load_users (Some (Array ids)) = Inr ids \<and>
   load_users (Some Unparseable) = Inl JSONDecodeError \<and>
   PrayerBot_init (Some Unparseable) = Inl JSONDecodeError"
  by (simp add: load_users_def PrayerBot_init_def)

theorem load_users_contract_witness:
  "load_users (Some (Array [3, 1, 2])) = Inr [3, 1, 2] \<and>
   load_users (Some Unparseable) \<noteq> Inr []"
  using load_users_contract [of "[3, 1, 2]"] by simp

text \<open>
  Claim C10. \<^verbatim>\<open>load_users\<close> hands the parsed array over as it is, and
  \<^verbatim>\<open>__init__\<close> stores it: a file whose array holds the identifier 7 twice gives a
  subscriber list that holds 7 twice. A later \<^verbatim>\<open>/start\<close> of 7 finds it present and
  changes nothing, so the duplicate stays.
\<close>

theorem load_keeps_duplicates:
  "PrayerBot_init (Some (Array ids)) =
     Inr \<lparr>users = ids, sent_reminders = [], users_file = Some (Array ids)\<rparr> \<and>
   (\<exists>file st. PrayerBot_init file = Inr st \<and> count_list (users st) 7 = 2) \<and>
   users (fst (start 7 None
     \<lparr>users = [7, 7], sent_reminders = [], users_file = Some (Array [7, 7])\<rparr>)) = [7, 7]"
proof -
  have a: "PrayerBot_init (Some (Array ids)) =
     Inr \<lparr>users = ids, sent_reminders = [], users_file = Some (Array ids)\<rparr>" for ids
    by (simp add: load_users_def PrayerBot_init_def)
  have "count_list
      (users \<lparr>users = [7, 7], sent_reminders = [], users_file = Some (Array [7, 7])\<rparr>) 7 = 2"
    by simp
  with a [of "[7, 7]"]
  have b: "\<exists>file st. PrayerBot_init file = Inr st \<and> count_list (users st) 7 = 2"
    by blast
  have c: "users (fst (start 7 None
     \<lparr>users = [7, 7], sent_reminders = [], users_file = Some (Array [7, 7])\<rparr>)) = [7, 7]"
    by (simp add: start_def)
  from a b c show ?thesis by blast
qed

theorem load_keeps_duplicates_witness:
  "PrayerBot_init (Some (Array [7, 7])) =
     Inr \<lparr>users = [7, 7], sent_reminders = [], users_file = Some (Array [7, 7])\<rparr> \<and>
   \<not> distinct [7, 7 :: int]"
  using load_keeps_duplicates [of "[7, 7]"] by simp

section \<open>Subscribing and unsubscribing\<close>

text \<open>
  Claim C7. \<^verbatim>\<open>/start\<close> from an identifier that is in the subscriber list leaves the
  state as it is, list and file. \<^verbatim>\<open>/stop\<close> from an identifier that is not in the list
  leaves the state as it is and answers with the "not subscribed" text, which is not the
  confirmation text. So a second \<^verbatim>\<open>/start\<close> changes nothing after the first.
\<close>

theorem subscribe_unsubscribe_idempotent:
  "(chat_id \<in> set (users st) \<longrightarrow>
      start chat_id reply_error st = (st, Welcome, reply_error)) \<and>
   (chat_id \<notin> set (users st) \<longrightarrow>
      stop chat_id reply_error st = (st, Not_subscribed, reply_error)) \<and>
   Not_subscribed \<noteq> Reminders_stopped \<and>
   fst (start chat_id e2 (fst (start chat_id e1 st))) = fst (start chat_id e1 st)"
  by (simp add: start_def stop_def save_users_def)

theorem subscribe_unsubscribe_idempotent_witness:
  "(1::int) \<in> set [1, 2] \<and>
   start 1 None \<lparr>users = [1, 2], sent_reminders = [], users_file = Some (Array [1, 2])\<rparr>
     = (\<lparr>users = [1, 2], sent_reminders = [], users_file = Some (Array [1, 2])\<rparr>,
        Welcome, None) \<and>
   (9::int) \<notin> set [1, 2] \<and>
   stop 9 None \<lparr>users = [1, 2], sent_reminders = [], users_file = Some (Array [1, 2])\<rparr>
     = (\<lparr>users = [1, 2], sent_reminders = [], users_file = Some (Array [1, 2])\<rparr>,
        Not_subscribed, None)"
  using subscribe_unsubscribe_idempotent [of 1
      "\<lparr>users = [1, 2], sent_reminders = [], users_file = Some (Array [1, 2])\<rparr>" None None None]
    subscribe_unsubscribe_idempotent [of 9
      "\<lparr>users = [1, 2], sent_reminders = [], users_file = Some (Array [1, 2])\<rparr>" None None None]
  by simp

section \<open>The reminder loop\<close>

lemma remind_step_raises:
  "\<not> parses now t \<Longrightarrow> \<exists>e. remind_step tz now K ids (n, t) L = (L, [], Some e)"
  by (auto simp: parses_def remind_step_def split: sum.splits)

lemma remind_step_strptime_error:
  "strptime_HM t = Inl e \<Longrightarrow> remind_step tz now K ids (n, t) L = (L, [], Some e)"
  by (simp add: remind_step_def)

lemma remind_step_not_due:
  "parses now t \<Longrightarrow> \<not> due tz now t \<Longrightarrow> remind_step tz now K ids (n, t) L = (L, [], None)"
  by (auto simp: parses_def due_def remind_step_def split: sum.splits)

lemma remind_step_due:
  "due tz now t \<Longrightarrow> map_of L K = Some notified \<Longrightarrow>
   remind_step tz now K ids (n, t) L =
     (if reminder_key K n \<in> set notified then (L, [], None)
      else (AList.update K (notified @ [reminder_key K n]) L,
            [(n, t, send_reminder ids n t)], None))"
  by (auto simp: due_def remind_step_def reminder_key_def split: sum.splits)

lemma due_parses: "due tz now t \<Longrightarrow> parses now t"
  by (auto simp: due_def parses_def split: sum.splits)

text \<open>
  A call for \<open>p\<close> needs the key of \<open>p\<close> absent from today's entry, and puts it there;
  a key that is there stays.
\<close>

lemma remind_step_marked:
  "remind_step tz now K ids item L = (L', calls, err) \<Longrightarrow>
   calls_for p calls + marked K p L \<le> marked K p L'"
  unfolding remind_step_def
  by (auto simp: calls_for_def marked_def notified_today_def reminder_key_def Let_def
      update_conv' split: prod.splits sum.splits option.splits if_splits)

lemma remind_step_call:
  assumes "remind_step tz now K ids (p, t) L = (L', calls, err)" and "calls \<noteq> []"
  shows "reminder_key K p \<notin> set (notified_today K L) \<and>
         reminder_key K p \<in> set (notified_today K L') \<and>
         calls = [(p, t, send_reminder ids p t)] \<and> err = None"
  using assms unfolding remind_step_def
  by (auto simp: notified_today_def reminder_key_def Let_def update_conv'
      split: prod.splits sum.splits option.splits if_splits)

lemma remind_loop_marked:
  "remind_loop tz now K ids ps L = (L', calls, err) \<Longrightarrow>
   calls_for p calls + marked K p L \<le> marked K p L'"
proof (induction ps arbitrary: L L' calls err)
  case Nil
  then show ?case by (simp add: calls_for_def)
next
  case (Cons item rest)
  obtain L1 calls1 err1 where s: "remind_step tz now K ids item L = (L1, calls1, err1)"
    by (cases "remind_step tz now K ids item L") auto
  note m1 = remind_step_marked [OF s, of p]
  show ?case
  proof (cases err1)
    case (Some e)
    with Cons.prems s have "L' = L1" "calls = calls1" by auto
    with m1 show ?thesis by simp
  next
    case None
    obtain L2 calls2 err2 where l: "remind_loop tz now K ids rest L1 = (L2, calls2, err2)"
      by (cases "remind_loop tz now K ids rest L1") auto
    with Cons.prems s None have eq: "L' = L2" "calls = calls1 @ calls2" by auto
    from Cons.IH [OF l] have "calls_for p calls2 + marked K p L1 \<le> marked K p L2" .
    moreover have "calls_for p (calls1 @ calls2) = calls_for p calls1 + calls_for p calls2"
      by (simp add: calls_for_def)
    ultimately show ?thesis using m1 eq by simp
  qed
qed

lemma marked_reset: "marked K p (reset_ledger K L) = marked K p L"
  by (auto simp: marked_def reset_ledger_def notified_today_def)

lemma sends_for_calls:
  "sends_for p (map (\<lambda>(n, t, sends). Send_reminder n t sends) calls @ raised_effect err)
   = calls_for p calls"
proof -
  have "sends_for p (raised_effect err) = 0"
    by (simp add: sends_for_def raised_effect_def split: option.splits)
  moreover have
    "sends_for p (map (\<lambda>(n, t, sends). Send_reminder n t sends) calls) = calls_for p calls"
    by (induction calls) (auto simp: sends_for_def calls_for_def)
  ultimately show ?thesis by (simp add: sends_for_def)
qed

lemma check_prayer_times_marked:
  "strftime_Ymd now = K \<Longrightarrow> check_prayer_times tz response now st = (st', calls, err) \<Longrightarrow>
   calls_for p calls + marked K p (sent_reminders st) \<le> marked K p (sent_reminders st')"
  unfolding check_prayer_times_def
  apply (auto simp: Let_def calls_for_def split: option.splits if_splits prod.splits)
  apply (drule remind_loop_marked [where p = p])
  apply (simp add: marked_reset calls_for_def)
  done

lemma on_day_key: "on_day d (Tick response now) \<Longrightarrow> strftime_Ymd now = date_key d"
  by (auto simp: on_day_def date_key_def strftime_Ymd_def)

lemma step_marked:
  "on_day d ev \<Longrightarrow> step tz ev st = (st', effects) \<Longrightarrow>
   sends_for p effects + marked (date_key d) p (sent_reminders st)
     \<le> marked (date_key d) p (sent_reminders st')"
proof (cases ev)
  case (Tick response now)
  assume d: "on_day d ev" and s: "step tz ev st = (st', effects)"
  obtain st1 calls err where c: "check_prayer_times tz response now st = (st1, calls, err)"
    by (cases "check_prayer_times tz response now st") auto
  from d Tick have k: "strftime_Ymd now = date_key d" by (simp add: on_day_key)
  from s Tick c have "st' = st1"
    "effects = map (\<lambda>(n, t, sends). Send_reminder n t sends) calls @ raised_effect err"
    by (auto simp: step_def)
  with check_prayer_times_marked [OF k c, of p] show ?thesis
    by (simp add: sends_for_calls)
next
  case (Start_command c e)
  assume "step tz ev st = (st', effects)"
  with Start_command show ?thesis
    by (auto simp: step_def start_def save_users_def sends_for_def raised_effect_def Let_def
        split: option.splits if_splits)
next
  case (Today_command c r e)
  assume "step tz ev st = (st', effects)"
  with Today_command show ?thesis
    by (auto simp: step_def today_def sends_for_def raised_effect_def
        split: option.splits if_splits)
next
  case (Stop_command c e)
  assume "step tz ev st = (st', effects)"
  with Stop_command show ?thesis
    by (auto simp: step_def stop_def save_users_def sends_for_def raised_effect_def
        split: option.splits if_splits)
qed

lemma run_marked:
  "list_all (on_day d) evs \<Longrightarrow> run tz evs st = (st', effects) \<Longrightarrow>
   sends_for p effects + marked (date_key d) p (sent_reminders st)
     \<le> marked (date_key d) p (sent_reminders st')"
proof (induction evs arbitrary: st st' effects)
  case Nil
  then show ?case by (simp add: sends_for_def)
next
  case (Cons ev evs)
  obtain st1 eff1 where s: "step tz ev st = (st1, eff1)" by (cases "step tz ev st") auto
  obtain st2 eff2 where r: "run tz evs st1 = (st2, eff2)" by (cases "run tz evs st1") auto
  from Cons.prems s r have eq: "st' = st2" "effects = eff1 @ eff2" by auto
  from Cons.prems have d: "on_day d ev" "list_all (on_day d) evs" by auto
  have "sends_for p (eff1 @ eff2) = sends_for p eff1 + sends_for p eff2"
    by (simp add: sends_for_def)
  with step_marked [OF d(1) s, of p] Cons.IH [OF d(2) r] eq show ?case by simp
qed

text \<open>With today's entry present, the loop raises exactly when some time string does not parse.\<close>

lemma remind_loop_raises_iff:
  "map_of L K \<noteq> None \<Longrightarrow> remind_loop tz now K ids ps L = (L', calls, err) \<Longrightarrow>
   (err = None) = list_all (\<lambda>(n, t). parses now t) ps \<and> map_of L' K \<noteq> None"
proof (induction ps arbitrary: L L' calls err)
  case Nil
  then show ?case by auto
next
  case (Cons item rest)
  obtain n t where item: "item = (n, t)" by (cases item) auto
  from Cons.prems(1) obtain notified where nt: "map_of L K = Some notified" by auto
  show ?case
  proof (cases "parses now t")
    case False
    from remind_step_raises [OF False, of tz K ids n L]
    obtain e where "remind_step tz now K ids (n, t) L = (L, [], Some e)" by blast
    with Cons.prems item False show ?thesis by auto
  next
    case True
    show ?thesis
    proof (cases "due tz now t")
      case False
      from remind_step_not_due [OF True False]
      have s: "remind_step tz now K ids (n, t) L = (L, [], None)" .
      obtain L2 calls2 err2 where l: "remind_loop tz now K ids rest L = (L2, calls2, err2)"
        by (cases "remind_loop tz now K ids rest L") auto
      with Cons.prems(2) s item have "L' = L2" "err = err2" by auto
      with Cons.IH [OF Cons.prems(1) l] True item show ?thesis by simp
    next
      case d: True
      let ?L1 = "if reminder_key K n \<in> set notified then L
                 else AList.update K (notified @ [reminder_key K n]) L"
      have L1: "map_of ?L1 K \<noteq> None" using nt by (simp add: update_conv')
      obtain L2 calls2 err2 where l: "remind_loop tz now K ids rest ?L1 = (L2, calls2, err2)"
        by (cases "remind_loop tz now K ids rest ?L1") auto
      from Cons.prems(2) item remind_step_due [OF d nt, of ids n] l
      have "L' = L2" "err = err2" by (auto split: if_splits)
      with Cons.IH [OF L1 l] True item show ?thesis by simp
    qed
  qed
qed

lemma map_of_reset: "map_of (reset_ledger K L) K \<noteq> None"
  by (auto simp: reset_ledger_def)

lemma fetched_not_empty: "get_prayer_times response = Some ps \<Longrightarrow> ps \<noteq> []"
  using get_prayer_times_names [of response ps] by (auto simp: prayer_names_def)

lemma check_prayer_times_raises_iff:
  assumes "get_prayer_times response = Some ps"
  shows "(snd (snd (check_prayer_times tz response now st)) = None)
         = list_all (\<lambda>(n, t). parses now t) ps"
proof -
  let ?K = "strftime_Ymd now"
  obtain L' calls err where
    l: "remind_loop tz now ?K (users st) ps (reset_ledger ?K (sent_reminders st)) = (L', calls, err)"
    by (cases "remind_loop tz now ?K (users st) ps (reset_ledger ?K (sent_reminders st))") auto
  from assms l fetched_not_empty [OF assms]
  have "snd (snd (check_prayer_times tz response now st)) = err"
    by (simp add: check_prayer_times_def Let_def)
  with remind_loop_raises_iff [OF map_of_reset l] show ?thesis by simp
qed

text \<open>
  From a ledger that holds today's entry only, with the key of no prayer still to come:
  the loop calls \<^verbatim>\<open>send_reminder\<close> for exactly the prayers for which its own time
  comparison holds (\<open>due\<close>), up to the first time string that does not parse, and adds
  their keys.
\<close>

lemma remind_loop_fresh:
  "distinct (map fst ps) \<Longrightarrow> \<forall>n \<in> set (map fst ps). reminder_key K n \<notin> set notified \<Longrightarrow>
   remind_loop tz now K ids ps [(K, notified)] = (L', calls, err) \<Longrightarrow>
   L' = [(K, notified @ map (\<lambda>(n, t, sends). reminder_key K n) calls)] \<and>
   calls = map (\<lambda>(n, t). (n, t, send_reminder ids n t))
             (filter (\<lambda>(n, t). due tz now t) (takeWhile (\<lambda>(n, t). parses now t) ps))"
proof (induction ps arbitrary: notified L' calls err)
  case Nil
  then show ?case by auto
next
  case (Cons item rest)
  obtain n t where item: "item = (n, t)" by (cases item) auto
  show ?case
  proof (cases "parses now t")
    case False
    from remind_step_raises [OF False, of tz K ids n "[(K, notified)]"]
    obtain e where "remind_step tz now K ids (n, t) [(K, notified)] = ([(K, notified)], [], Some e)"
      by blast
    with Cons.prems item False show ?thesis by auto
  next
    case True
    from Cons.prems(1) have dist: "distinct (map fst rest)" by simp
    show ?thesis
    proof (cases "due tz now t")
      case False
      from remind_step_not_due [OF True False]
      have s: "remind_step tz now K ids (n, t) [(K, notified)] = ([(K, notified)], [], None)" .
      obtain L2 calls2 err2 where
        l: "remind_loop tz now K ids rest [(K, notified)] = (L2, calls2, err2)"
        by (cases "remind_loop tz now K ids rest [(K, notified)]") auto
      with Cons.prems(3) s item have eq: "L' = L2" "calls = calls2" by auto
      from Cons.prems(2) have "\<forall>n \<in> set (map fst rest). reminder_key K n \<notin> set notified"
        by simp
      from Cons.IH [OF dist this l] eq True False item show ?thesis by simp
    next
      case d: True
      from Cons.prems(2) item have fresh: "reminder_key K n \<notin> set notified" by simp
      have s: "remind_step tz now K ids (n, t) [(K, notified)] =
          ([(K, notified @ [reminder_key K n])], [(n, t, send_reminder ids n t)], None)"
        using remind_step_due [OF d, of "[(K, notified)]" K notified ids n] fresh by simp
      obtain L2 calls2 err2 where
        l: "remind_loop tz now K ids rest [(K, notified @ [reminder_key K n])] = (L2, calls2, err2)"
        by (cases "remind_loop tz now K ids rest [(K, notified @ [reminder_key K n])]") auto
      with Cons.prems(3) s item
      have eq: "L' = L2" "calls = (n, t, send_reminder ids n t) # calls2" by auto
      from Cons.prems(1,2) item
      have "\<forall>m \<in> set (map fst rest). reminder_key K m \<notin> set (notified @ [reminder_key K n])"
        by (auto simp: reminder_key_def)
      from Cons.IH [OF dist this l] eq True d item show ?thesis by simp
    qed
  qed
qed

text \<open>The same for a whole tick whose ledger, after the reset step, holds today's entry only.\<close>

lemma tick_today_only:
  assumes f: "get_prayer_times response = Some ps"
    and r: "reset_ledger (strftime_Ymd now) (sent_reminders st) = [(strftime_Ymd now, notified)]"
    and fresh: "\<forall>n \<in> set prayer_names. reminder_key (strftime_Ymd now) n \<notin> set notified"
    and c: "check_prayer_times tz response now st = (st', calls, err)"
  shows "calls = map (\<lambda>(n, t). (n, t, send_reminder (users st) n t))
             (filter (\<lambda>(n, t). due tz now t) (takeWhile (\<lambda>(n, t). parses now t) ps))"
    and "st' = st\<lparr>sent_reminders :=
            [(strftime_Ymd now,
              notified @ map (\<lambda>(n, t, sends). reminder_key (strftime_Ymd now) n) calls)]\<rparr>"
    and "(err = None) = list_all (\<lambda>(n, t). parses now t) ps"
proof -
  let ?K = "strftime_Ymd now"
  obtain L' calls' err' where
    l: "remind_loop tz now ?K (users st) ps [(?K, notified)] = (L', calls', err')"
    by (cases "remind_loop tz now ?K (users st) ps [(?K, notified)]") auto
  from f l r c fetched_not_empty [OF f]
  have eq: "st' = st\<lparr>sent_reminders := L'\<rparr>" "calls = calls'" "err = err'"
    by (auto simp: check_prayer_times_def Let_def)
  have names: "map fst ps = prayer_names" by (rule get_prayer_times_names [OF f])
  then have d: "distinct (map fst ps)" by (simp add: prayer_names_def)
  from fresh names have fr: "\<forall>n \<in> set (map fst ps). reminder_key ?K n \<notin> set notified" by simp
  from remind_loop_fresh [OF d fr l] eq
  show "calls = map (\<lambda>(n, t). (n, t, send_reminder (users st) n t))
             (filter (\<lambda>(n, t). due tz now t) (takeWhile (\<lambda>(n, t). parses now t) ps))"
    and "st' = st\<lparr>sent_reminders :=
            [(?K, notified @ map (\<lambda>(n, t, sends). reminder_key ?K n) calls)]\<rparr>"
    by simp_all
  from c have "snd (snd (check_prayer_times tz response now st)) = err" by simp
  with check_prayer_times_raises_iff [OF f, of tz now st]
  show "(err = None) = list_all (\<lambda>(n, t). parses now t) ps" by simp
qed

lemma remind_step_due_entry:
  "due tz now t \<Longrightarrow> map_of L K \<noteq> None \<Longrightarrow>
   remind_step tz now K ids (n, t) L =
     (if reminder_key K n \<in> set (notified_today K L) then (L, [], None)
      else (AList.update K (notified_today K L @ [reminder_key K n]) L,
            [(n, t, send_reminder ids n t)], None))"
  using remind_step_due [of tz now t L K _ ids n] by (auto simp: notified_today_def)

lemma remind_loop_none_due:
  "list_all (\<lambda>(n, t). parses now t \<and> \<not> due tz now t) ps \<Longrightarrow>
   remind_loop tz now K ids ps L = (L, [], None)"
  by (induction ps) (auto simp: remind_step_not_due)

section \<open>The time comparison of the loop\<close>

text \<open>
  The date cancels in the comparison of the loop: for a time string that parses to
  \<open>ph:pm\<close>, only the clock's time of day, the prayer's time of day and the two offsets
  of the zone count. The reminder is due within a minute of the clock reading
  \<open>ph:pm - 1 h + (now_utcoffset - own_utcoffset)\<close>.
\<close>

lemma due_iff:
  assumes "1 \<le> ymd2ord (year now) (month now) (day now)" and "1 \<le> ph"
    and "strptime_HM t = Inr (ph, pm)"
  shows "due tz now t =
     (\<bar>time_of_day_us now - (int ph * 3600 + int pm * 60 - 3600) * 1000000
       + (own_utcoffset tz - now_utcoffset tz) * 1000000\<bar> < 60 * 1000000)"
    and "parses now t"
proof -
  let ?o = "ymd2ord (year now) (month now) (day now)"
  have "(?o * 86400 + int ph * 3600 + int pm * 60) * 1000000 - 3600 * 1000000
        \<ge> 86400 * 1000000"
    using assms(1,2) by simp
  then have r: "reminder_time now (ph, pm) =
      Inr ((?o * 86400 + int ph * 3600 + int pm * 60) * 1000000 - 3600 * 1000000)"
    by (simp add: reminder_time_def wall_us_def Let_def)
  show "parses now t" using assms(3) r by (simp add: parses_def)
  show "due tz now t =
     (\<bar>time_of_day_us now - (int ph * 3600 + int pm * 60 - 3600) * 1000000
       + (own_utcoffset tz - now_utcoffset tz) * 1000000\<bar> < 60 * 1000000)"
    using assms(3) r
    by (simp add: due_def time_diff_us_def wall_us_def time_of_day_us_def algebra_simps)
qed

lemma strptime_scenario:
  "strptime_HM (JStr ''05:00'') = Inr (5, 0)"
  "strptime_HM (JStr ''12:30'') = Inr (12, 30)"
  "strptime_HM (JStr ''16:00'') = Inr (16, 0)"
  "strptime_HM (JStr ''18:45'') = Inr (18, 45)"
  "strptime_HM (JStr ''20:00'') = Inr (20, 0)"
  "strptime_HM (JStr ''16h00'') = Inl ValueError"
  by (simp_all add: strptime_HM_def match_HM_def match_H_def match_M_def match_colon_def
      two_digits_def one_digit_def digit_of_def)

lemma ymd2ord_scenario: "ymd2ord 2026 11 4 = 739924"
  by (simp add: ymd2ord_def days_before_year_def days_before_month_def is_leap_def)

lemma strftime_clock: "strftime_Ymd (clock h m s) = ''2026-11-04''"
  by (simp add: strftime_Ymd_def clock_def digit_char_def)

lemma clock_simps:
  "ymd2ord (year (clock h m s)) (month (clock h m s)) (day (clock h m s)) = 739924"
  "time_of_day_us (clock h m s) = (int h * 3600 + int m * 60 + int s) * 1000000"
  by (simp_all add: clock_def ymd2ord_scenario time_of_day_us_def)

lemma parses_scenario:
  "parses (clock h m s) (JStr ''05:00'')"
  "parses (clock h m s) (JStr ''12:30'')"
  "parses (clock h m s) (JStr ''16:00'')"
  "parses (clock h m s) (JStr ''18:45'')"
  "parses (clock h m s) (JStr ''20:00'')"
  "\<not> parses (clock h m s) (JStr ''16h00'')"
  using due_iff(2) [OF _ _ strptime_scenario(1), of "clock h m s"]
    due_iff(2) [OF _ _ strptime_scenario(2), of "clock h m s"]
    due_iff(2) [OF _ _ strptime_scenario(3), of "clock h m s"]
    due_iff(2) [OF _ _ strptime_scenario(4), of "clock h m s"]
    due_iff(2) [OF _ _ strptime_scenario(5), of "clock h m s"]
  by (simp_all add: clock_simps parses_def strptime_scenario)

text \<open>When each prayer of the scenario is due, by the clock of 4 November 2026.\<close>

lemma due_scenario:
  "due tz (clock h m s) (JStr ''05:00'') =
     (\<bar>(int h * 3600 + int m * 60 + int s) - 14400 + (own_utcoffset tz - now_utcoffset tz)\<bar> < 60)"
  "due tz (clock h m s) (JStr ''12:30'') =
     (\<bar>(int h * 3600 + int m * 60 + int s) - 41400 + (own_utcoffset tz - now_utcoffset tz)\<bar> < 60)"
  "due tz (clock h m s) (JStr ''16:00'') =
     (\<bar>(int h * 3600 + int m * 60 + int s) - 54000 + (own_utcoffset tz - now_utcoffset tz)\<bar> < 60)"
  "due tz (clock h m s) (JStr ''18:45'') =
     (\<bar>(int h * 3600 + int m * 60 + int s) - 63900 + (own_utcoffset tz - now_utcoffset tz)\<bar> < 60)"
  "due tz (clock h m s) (JStr ''20:00'') =
     (\<bar>(int h * 3600 + int m * 60 + int s) - 68400 + (own_utcoffset tz - now_utcoffset tz)\<bar> < 60)"
  by (simp_all add: due_iff(1) [OF _ _ strptime_scenario(1)] due_iff(1) [OF _ _ strptime_scenario(2)]
      due_iff(1) [OF _ _ strptime_scenario(3)] due_iff(1) [OF _ _ strptime_scenario(4)]
      due_iff(1) [OF _ _ strptime_scenario(5)] clock_simps) arith+

section \<open>At most one reminder per prayer and day\<close>

text \<open>
  Claim C1. Take any run of the bot, from any state, whose ticks all read the same
  calendar date \<open>d\<close> (commands may come in between, and a tick may fail or raise). For
  each prayer name \<open>p\<close>, \<^verbatim>\<open>send_reminder\<close> is called for \<open>p\<close> at most once in the run,
  however many ticks fall in the reminder window. The mechanism is the one of the loop
  body: a call for \<open>p\<close> is made only when the key of \<open>p\<close> is absent from today's
  entry of the ledger, and the key is in the entry when the loop body is left.
\<close>

theorem at_most_one_reminder_per_day:
  assumes "list_all (on_day d) evs"
  shows "sends_for p (snd (run tz evs st)) \<le> 1 \<and>
         (\<forall>now ids t L L' calls err.
            remind_step tz now (date_key d) ids (p, t) L = (L', calls, err) \<and> calls \<noteq> []
            \<longrightarrow> reminder_key (date_key d) p \<notin> set (notified_today (date_key d) L) \<and>
                reminder_key (date_key d) p \<in> set (notified_today (date_key d) L'))"
proof -
  obtain st' effects where r: "run tz evs st = (st', effects)" by (cases "run tz evs st") auto
  have "marked (date_key d) p (sent_reminders st') \<le> 1" by (simp add: marked_def)
  with run_marked [OF assms r, of p] r have "sends_for p (snd (run tz evs st)) \<le> 1" by simp
  then show ?thesis using remind_step_call by blast
qed

text \<open>
  With the zone of the program, the ticks at 15:47:30 and at 15:48:30 are both in the
  window of Asr (16:00); the second one finds the key.
\<close>

lemma two_ticks_in_window:
  "due TIMEZONE (clock 15 47 30) (JStr ''16:00'') \<and> due TIMEZONE (clock 15 48 30) (JStr ''16:00'') \<and>
   sends_for ''Asr''
     (snd (run TIMEZONE [Tick (Body scenario_payload) (clock 15 47 30),
                         Tick (Body scenario_payload) (clock 15 48 30)]
            \<lparr>users = [1, 2], sent_reminders = [], users_file = None\<rparr>)) = 1"
  by (simp add: due_scenario TIMEZONE_def step_def check_prayer_times_def scenario_fetch
      strftime_clock reset_ledger_def Let_def remind_step_not_due remind_step_due_entry
      parses_scenario notified_today_def reminder_key_def sends_for_def raised_effect_def)

theorem at_most_one_reminder_per_day_witness:
  "list_all (on_day (2026, 11, 4))
     [Tick (Body scenario_payload) (clock 15 47 30),
      Tick (Body scenario_payload) (clock 15 48 30)] \<and>
   sends_for ''Asr''
     (snd (run TIMEZONE [Tick (Body scenario_payload) (clock 15 47 30),
                         Tick (Body scenario_payload) (clock 15 48 30)]
            \<lparr>users = [1, 2], sent_reminders = [], users_file = None\<rparr>)) \<le> 1"
  using at_most_one_reminder_per_day [of "(2026, 11, 4)"
      "[Tick (Body scenario_payload) (clock 15 47 30),
        Tick (Body scenario_payload) (clock 15 48 30)]" "''Asr''" TIMEZONE
      "\<lparr>users = [1, 2], sent_reminders = [], users_file = None\<rparr>"]
  by (simp add: on_day_def clock_def)

section \<open>The scenario: a tick one hour before Asr\<close>

text \<open>
  Claim C2 says that, with the time-table of the scenario, the tick at 15:00:10 sends
  the Asr reminder. The program does not: \<^verbatim>\<open>prayer_time\<close> is built with
  \<^verbatim>\<open>replace(tzinfo=TIMEZONE)\<close> and carries the zone's own offset of 12 minutes, while
  \<^verbatim>\<open>now\<close> carries the offset of one hour, so the two are 48 minutes further apart than
  their clock readings. Whatever the state, the tick at 15:00:10 calls
  \<^verbatim>\<open>send_reminder\<close> for no prayer; it only makes today's entry in the ledger.
\<close>

theorem asr_tick_an_hour_before_sends_nothing:
  "check_prayer_times TIMEZONE (Body scenario_payload) (clock 15 0 10) st =
     (st\<lparr>sent_reminders := reset_ledger ''2026-11-04'' (sent_reminders st)\<rparr>, [], None)"
proof -
  have "remind_loop TIMEZONE (clock 15 0 10) ''2026-11-04'' (users st)
          [(''Fajr'', JStr ''05:00''), (''Dhuhr'', JStr ''12:30''), (''Asr'', JStr ''16:00''),
           (''Maghrib'', JStr ''18:45''), (''Isha'', JStr ''20:00'')]
          (reset_ledger ''2026-11-04'' (sent_reminders st))
        = (reset_ledger ''2026-11-04'' (sent_reminders st), [], None)"
    by (rule remind_loop_none_due) (simp add: parses_scenario due_scenario TIMEZONE_def)
  then show ?thesis
    by (simp add: check_prayer_times_def scenario_fetch strftime_clock Let_def
        del: remind_loop.simps)
qed

theorem asr_tick_an_hour_before_sends_nothing_witness:
  "check_prayer_times TIMEZONE (Body scenario_payload) (clock 15 0 10)
     \<lparr>users = [1, 2], sent_reminders = [], users_file = None\<rparr> =
     (\<lparr>users = [1, 2], sent_reminders = [(''2026-11-04'', [])], users_file = None\<rparr>, [], None)"
  using asr_tick_an_hour_before_sends_nothing
     [of "\<lparr>users = [1, 2], sent_reminders = [], users_file = None\<rparr>"]
  by (simp add: reset_ledger_def)

text \<open>The program sends the Asr reminder 12 minutes before the prayer, at 15:48.\<close>

lemma asr_reminder_sent_at_15_48:
  "check_prayer_times TIMEZONE (Body scenario_payload) (clock 15 48 10)
     \<lparr>users = ids, sent_reminders = [], users_file = file\<rparr> =
     (\<lparr>users = ids, sent_reminders = [(''2026-11-04'', [''2026-11-04-Asr''])], users_file = file\<rparr>,
      [(''Asr'', JStr ''16:00'', send_reminder ids ''Asr'' (JStr ''16:00''))], None)"
  by (simp add: check_prayer_times_def scenario_fetch strftime_clock reset_ledger_def Let_def
      remind_step_not_due remind_step_due_entry parses_scenario due_scenario TIMEZONE_def
      notified_today_def reminder_key_def)

text \<open>
  With a zone object whose own offset is the one of \<^verbatim>\<open>now\<close>, the three ticks of the
  scenario do what the claim says: the tick at 15:00:10 sends Asr, the tick at 15:02:00
  after it sends nothing, and neither does a tick at 14:58:00.
\<close>

lemma scenario_with_agreeing_offsets:
  "check_prayer_times \<lparr>now_utcoffset = 3600, own_utcoffset = 3600\<rparr>
     (Body scenario_payload) (clock 15 0 10)
     \<lparr>users = ids, sent_reminders = [], users_file = file\<rparr> =
     (\<lparr>users = ids, sent_reminders = [(''2026-11-04'', [''2026-11-04-Asr''])], users_file = file\<rparr>,
      [(''Asr'', JStr ''16:00'', send_reminder ids ''Asr'' (JStr ''16:00''))], None)"
  "check_prayer_times \<lparr>now_utcoffset = 3600, own_utcoffset = 3600\<rparr>
     (Body scenario_payload) (clock 15 2 0)
     \<lparr>users = ids, sent_reminders = [(''2026-11-04'', [''2026-11-04-Asr''])], users_file = file\<rparr> =
     (\<lparr>users = ids, sent_reminders = [(''2026-11-04'', [''2026-11-04-Asr''])], users_file = file\<rparr>,
      [], None)"
  "check_prayer_times \<lparr>now_utcoffset = 3600, own_utcoffset = 3600\<rparr>
     (Body scenario_payload) (clock 14 58 0)
     \<lparr>users = ids, sent_reminders = [], users_file = file\<rparr> =
     (\<lparr>users = ids, sent_reminders = [(''2026-11-04'', [])], users_file = file\<rparr>, [], None)"
  by (simp_all add: check_prayer_times_def scenario_fetch strftime_clock reset_ledger_def Let_def
      remind_step_not_due remind_step_due_entry parses_scenario due_scenario
      notified_today_def reminder_key_def)

section \<open>Date keys of different dates\<close>

lemma digit_char_inj: "(digit_char a = digit_char b) = (a mod 10 = b mod 10)"
proof -
  define ds where "ds = ''0123456789''"
  have d: "distinct ds" and l: "length ds = 10" by (simp_all add: ds_def)
  have "a mod 10 < length ds" "b mod 10 < length ds" by (simp_all add: l)
  from nth_eq_iff_index_eq [OF d this]
  show ?thesis unfolding digit_char_def ds_def .
qed

lemma two_digit_eq:
  fixes a b :: nat
  assumes "a div 10 mod 10 = b div 10 mod 10" "a mod 10 = b mod 10" "a < 100" "b < 100"
  shows "a = b"
proof -
  from assms(3,4) have "a div 10 < 10" "b div 10 < 10" by simp_all
  with assms(1) have "a div 10 = b div 10" by simp
  with assms(2) show ?thesis by (metis div_mult_mod_eq)
qed

lemma four_digit_eq:
  fixes a b :: nat
  assumes "a div 1000 mod 10 = b div 1000 mod 10" "a div 100 mod 10 = b div 100 mod 10"
    "a div 10 mod 10 = b div 10 mod 10" "a mod 10 = b mod 10" "a < 10000" "b < 10000"
  shows "a = b"
proof -
  have h: "a div 100 = b div 100"
  proof (rule two_digit_eq)
    show "a div 100 div 10 mod 10 = b div 100 div 10 mod 10"
      using assms(1) by (simp add: div_mult2_eq [symmetric])
    show "a div 100 mod 10 = b div 100 mod 10" by (rule assms(2))
    show "a div 100 < 100" "b div 100 < 100" using assms(5,6) by simp_all
  qed
  have l: "a mod 100 = b mod 100"
  proof (rule two_digit_eq)
    show "a mod 100 div 10 mod 10 = b mod 100 div 10 mod 10"
      using assms(3) by (simp add: mod_mult2_eq [of _ 10 10, simplified])
    show "a mod 100 mod 10 = b mod 100 mod 10"
      using assms(4) by (simp add: mod_mod_cancel)
    show "a mod 100 < 100" "b mod 100 < 100" by simp_all
  qed
  from h l show ?thesis by (metis div_mult_mod_eq)
qed

text \<open>
  For dates Python can hold (years up to 9999), the key determines the date: after a
  change of date the key of the new day is not the key of the old one.
\<close>

lemma strftime_Ymd_inj:
  assumes "strftime_Ymd a = strftime_Ymd b"
    and "year a < 10000" "year b < 10000" "month a < 100" "month b < 100"
    and "day a < 100" "day b < 100"
  shows "year a = year b \<and> month a = month b \<and> day a = day b"
proof -
  from assms(1) have
    y: "(year a div 1000) mod 10 = (year b div 1000) mod 10"
       "(year a div 100) mod 10 = (year b div 100) mod 10"
       "(year a div 10) mod 10 = (year b div 10) mod 10"
       "year a mod 10 = year b mod 10"
    and m: "(month a div 10) mod 10 = (month b div 10) mod 10" "month a mod 10 = month b mod 10"
    and d: "(day a div 10) mod 10 = (day b div 10) mod 10" "day a mod 10 = day b mod 10"
    unfolding strftime_Ymd_def by (simp_all add: digit_char_inj)
  from y assms(2,3) have "year a = year b" by (rule four_digit_eq)
  moreover from m assms(4,5) have "month a = month b" by (rule two_digit_eq)
  moreover from d assms(6,7) have "day a = day b" by (rule two_digit_eq)
  ultimately show ?thesis by simp
qed

lemma rollover_key_absent:
  assumes "sent_reminders st = [(strftime_Ymd earlier, notified)]"
    and "(year earlier, month earlier, day earlier) \<noteq> (year now, month now, day now)"
    and "year earlier < 10000" "year now < 10000" "month earlier < 100" "month now < 100"
    and "day earlier < 100" "day now < 100"
  shows "map_of (sent_reminders st) (strftime_Ymd now) = None"
proof -
  from assms(2-) strftime_Ymd_inj [of earlier now]
  have "strftime_Ymd earlier \<noteq> strftime_Ymd now" by blast
  with assms(1) show ?thesis by simp
qed

section \<open>The reset of the ledger\<close>

text \<open>
  Claim C3 says that every tick whose date key is absent from the ledger replaces the
  ledger. A tick whose fetch fails returns before that step: here the ledger keeps the
  entry of 3 November on a tick of 4 November.
\<close>

theorem failed_fetch_keeps_stale_ledger:
  "map_of [(''2026-11-03'', [''2026-11-03-Asr''])] (strftime_Ymd (clock 15 0 10)) = None \<and>
   sent_reminders (fst (check_prayer_times TIMEZONE Transport_error (clock 15 0 10)
     \<lparr>users = [1, 2], sent_reminders = [(''2026-11-03'', [''2026-11-03-Asr''])],
      users_file = Some (Array [1, 2])\<rparr>)) = [(''2026-11-03'', [''2026-11-03-Asr''])] \<and>
   [(''2026-11-03'', [''2026-11-03-Asr''])] \<noteq> [(strftime_Ymd (clock 15 0 10), [])]"
  by (simp add: check_prayer_times_def strftime_clock)

text \<open>
  Claim C3, amended. On every tick whose fetch succeeds and whose date key is absent
  from the ledger, the reset step replaces the ledger, before the prayers are examined,
  by the single entry of today with an empty list, whatever the ledger held. So each of
  the five prayers is eligible again: the key of none of them is in the ledger when the
  loop starts. At the end of that tick the ledger is still today's entry alone, and the
  keys in it are those of the prayers the tick called \<^verbatim>\<open>send_reminder\<close> for. (By
  \<open>rollover_key_absent\<close> the key of a new date is absent from a ledger that holds the
  entry of an earlier date.)
\<close>

theorem rollover_resets_ledger:
  assumes "get_prayer_times response = Some ps"
    and "map_of (sent_reminders st) (strftime_Ymd now) = None"
  shows "reset_ledger (strftime_Ymd now) (sent_reminders st) = [(strftime_Ymd now, [])] \<and>
     (\<forall>n \<in> set prayer_names.
        reminder_key (strftime_Ymd now) n
          \<notin> set (notified_today (strftime_Ymd now)
                   (reset_ledger (strftime_Ymd now) (sent_reminders st)))) \<and>
     (case check_prayer_times tz response now st of
        (st', calls, err) \<Rightarrow>
          sent_reminders st' =
            [(strftime_Ymd now, map (\<lambda>(n, t, sends). reminder_key (strftime_Ymd now) n) calls)])"
proof -
  from assms(2)
  have r: "reset_ledger (strftime_Ymd now) (sent_reminders st) = [(strftime_Ymd now, [])]"
    by (simp add: reset_ledger_def)
  obtain st' calls err where c: "check_prayer_times tz response now st = (st', calls, err)"
    by (cases "check_prayer_times tz response now st") auto
  have "\<forall>n \<in> set prayer_names. reminder_key (strftime_Ymd now) n \<notin> set []" by simp
  from tick_today_only(2) [OF assms(1) r this c] r c show ?thesis
    by (simp add: notified_today_def)
qed

theorem rollover_resets_ledger_witness:
  "get_prayer_times (Body scenario_payload) \<noteq> None \<and>
   map_of [(''2026-11-03'', [''2026-11-03-Asr''])] (strftime_Ymd (clock 10 0 0)) = None \<and>
   reset_ledger (strftime_Ymd (clock 10 0 0)) [(''2026-11-03'', [''2026-11-03-Asr''])]
     = [(''2026-11-04'', [])] \<and>
   sent_reminders (fst (check_prayer_times TIMEZONE (Body scenario_payload) (clock 10 0 0)
     \<lparr>users = [1, 2], sent_reminders = [(''2026-11-03'', [''2026-11-03-Asr''])],
      users_file = Some (Array [1, 2])\<rparr>)) = [(''2026-11-04'', [])]"
proof -
  let ?st = "\<lparr>users = [1, 2], sent_reminders = [(''2026-11-03'', [''2026-11-03-Asr''])],
      users_file = Some (Array [1, 2])\<rparr>"
  have a: "map_of (sent_reminders ?st) (strftime_Ymd (clock 10 0 0)) = None"
    by (simp add: strftime_clock)
  have e: "check_prayer_times TIMEZONE (Body scenario_payload) (clock 10 0 0) ?st =
   (\<lparr>users = [1, 2], sent_reminders = [(''2026-11-04'', [])],
      users_file = Some (Array [1, 2])\<rparr>, [], None)"
    by (simp add: check_prayer_times_def scenario_fetch strftime_clock reset_ledger_def Let_def
      remind_step_not_due parses_scenario due_scenario TIMEZONE_def)
  from rollover_resets_ledger [OF scenario_fetch a, of TIMEZONE] a e
  show ?thesis by (simp add: scenario_fetch strftime_clock)
qed

section \<open>Exceptions that leave the tick and the handlers\<close>

text \<open>
  Claim C8 says that a tick whose time-table holds a time string that is not of the form
  HH:MM returns normally. \<^verbatim>\<open>check_prayer_times\<close> has no \<^verbatim>\<open>try\<close>: with the Asr time
  \<open>16h00\<close>, \<^verbatim>\<open>strptime\<close> raises ValueError and the exception leaves the tick, after Fajr
  and Dhuhr were examined and before Maghrib and Isha are.
\<close>

theorem unparseable_time_raises_out_of_tick:
  "check_prayer_times TIMEZONE (Body unparseable_time_payload) (clock 15 0 10)
     \<lparr>users = [1, 2], sent_reminders = [], users_file = None\<rparr> =
   (\<lparr>users = [1, 2], sent_reminders = [(''2026-11-04'', [])], users_file = None\<rparr>,
    [], Some ValueError)"
proof -
  have "get_prayer_times (Body unparseable_time_payload) =
     Some [(''Fajr'', JStr ''05:00''), (''Dhuhr'', JStr ''12:30''), (''Asr'', JStr ''16h00''),
           (''Maghrib'', JStr ''18:45''), (''Isha'', JStr ''20:00'')]"
    by (simp add: get_prayer_times_def get_prayer_times_try_def unparseable_time_payload_def)
  then show ?thesis
    by (simp add: check_prayer_times_def strftime_clock reset_ledger_def Let_def
        remind_step_not_due remind_step_strptime_error parses_scenario due_scenario
        strptime_scenario TIMEZONE_def)
qed

text \<open>
  Claim C8, amended. The exceptions of the fetch are caught inside
  \<^verbatim>\<open>get_prayer_times\<close> and those of a send inside \<^verbatim>\<open>send_reminder\<close>; the tick and the
  handlers catch nothing themselves. A tick whose fetch succeeded returns normally
  exactly when every time string of the time-table parses (and the hour before it is a
  date Python can represent); a time string that \<^verbatim>\<open>strptime\<close> rejects makes the tick
  raise, and the exception leaves \<^verbatim>\<open>check_prayer_times\<close>. An exception raised by the
  reply of a command handler leaves the handler in the same way.
\<close>

theorem tick_raises_iff_time_string_unparseable:
  assumes "get_prayer_times response = Some ps"
  shows "(snd (snd (check_prayer_times tz response now st)) = None)
           = list_all (\<lambda>(n, t). parses now t) ps \<and>
         (\<forall>n t e. (n, t) \<in> set ps \<and> strptime_HM t = Inl e
            \<longrightarrow> snd (snd (check_prayer_times tz response now st)) \<noteq> None) \<and>
         snd (snd (start chat_id reply_error st)) = reply_error \<and>
         snd (today response' reply_error) = reply_error \<and>
         snd (snd (stop chat_id reply_error st)) = reply_error"
proof -
  have a: "(snd (snd (check_prayer_times tz response now st)) = None)
           = list_all (\<lambda>(n, t). parses now t) ps"
    by (rule check_prayer_times_raises_iff [OF assms])
  have b: "snd (snd (check_prayer_times tz response now st)) \<noteq> None"
    if "(n, t) \<in> set ps" and "strptime_HM t = Inl e" for n t e
  proof -
    from that(2) have "\<not> parses now t" by (simp add: parses_def)
    with that(1) have "\<not> list_all (\<lambda>(n, t). parses now t) ps"
      by (auto simp: list_all_iff)
    with a show ?thesis by simp
  qed
  have c: "snd (snd (start chat_id reply_error st)) = reply_error"
    "snd (today response' reply_error) = reply_error"
    "snd (snd (stop chat_id reply_error st)) = reply_error"
    by (simp_all add: start_def today_def stop_def Let_def split: option.splits)
  from a b c show ?thesis by blast
qed

theorem tick_raises_iff_time_string_unparseable_witness:
  "get_prayer_times (Body unparseable_time_payload) \<noteq> None \<and>
   snd (snd (check_prayer_times TIMEZONE (Body unparseable_time_payload) (clock 15 0 10)
     \<lparr>users = [1, 2], sent_reminders = [], users_file = None\<rparr>)) \<noteq> None \<and>
   snd (snd (check_prayer_times TIMEZONE (Body scenario_payload) (clock 15 0 10)
     \<lparr>users = [1, 2], sent_reminders = [], users_file = None\<rparr>)) = None \<and>
   snd (snd (stop 1 (Some ApiException)
     \<lparr>users = [1, 2], sent_reminders = [], users_file = None\<rparr>)) = Some ApiException"
proof -
  have f: "get_prayer_times (Body unparseable_time_payload) =
     Some [(''Fajr'', JStr ''05:00''), (''Dhuhr'', JStr ''12:30''), (''Asr'', JStr ''16h00''),
           (''Maghrib'', JStr ''18:45''), (''Isha'', JStr ''20:00'')]"
    by (simp add: get_prayer_times_def get_prayer_times_try_def unparseable_time_payload_def)
  from tick_raises_iff_time_string_unparseable [OF f, of TIMEZONE "clock 15 0 10"
      "\<lparr>users = [1, 2], sent_reminders = [], users_file = None\<rparr>" 1 "Some ApiException"]
    tick_raises_iff_time_string_unparseable [OF scenario_fetch, of TIMEZONE "clock 15 0 10"
      "\<lparr>users = [1, 2], sent_reminders = [], users_file = None\<rparr>" 1 "Some ApiException"]
    f
  show ?thesis by (simp add: parses_scenario)
qed

section \<open>The subscriber list and its file\<close>

lemma check_prayer_times_users:
  "check_prayer_times tz response now st = (st', calls, err) \<Longrightarrow>
   users st' = users st \<and> users_file st' = users_file st"
  by (auto simp: check_prayer_times_def Let_def split: option.splits if_splits prod.splits)

text \<open>What one event does to the list: \<^verbatim>\<open>/start\<close> appends, \<^verbatim>\<open>/stop\<close> deletes in place.\<close>

lemma step_users:
  "step tz ev st = (st', effects) \<Longrightarrow>
   users st' =
     (case ev of
        Start_command c e \<Rightarrow> if c \<in> set (users st) then users st else users st @ [c]
      | Stop_command c e \<Rightarrow> remove1 c (users st)
      | _ \<Rightarrow> users st)"
  by (cases ev)
    (auto simp: step_def start_def stop_def today_def save_users_def Let_def remove1_idem
      dest: check_prayer_times_users split: prod.splits if_splits option.splits)

lemma step_store:
  "step tz ev st = (st', effects) \<Longrightarrow> load_users (users_file st) = Inr (users st) \<Longrightarrow>
   load_users (users_file st') = Inr (users st')"
  by (cases ev)
    (auto simp: step_def start_def stop_def today_def save_users_def load_users_def Let_def
      dest: check_prayer_times_users split: prod.splits if_splits option.splits)

lemma initial_in_insertion_order:
  assumes "distinct ids"
  shows "in_insertion_order (length ids) ids (initial_stamps ids)"
proof -
  let ?m = "initial_stamps ids"
  have nth: "?m (ids ! k) = Some k" if "k < length ids" for k
    using map_of_zip_nth [of ids "[0..<length ids]" k] assms that
    by (simp add: initial_stamps_def)
  have dom: "set ids = dom ?m"
    by (auto simp: initial_stamps_def dom_map_of_zip)
  have bound: "j < length ids" if "?m x = Some j" for x j
  proof -
    from that have "(x, j) \<in> set (zip ids [0..<length ids])"
      unfolding initial_stamps_def by (rule map_of_SomeD)
    then have "j \<in> set [0..<length ids]" by (rule set_zip_rightD)
    then show ?thesis by simp
  qed
  have "sorted_wrt (inserted_before ?m) ids"
    unfolding sorted_wrt_iff_nth_less
    by (auto simp: inserted_before_def nth)
  with assms dom bound show ?thesis unfolding in_insertion_order_def by blast
qed

lemma subscribe_in_insertion_order:
  assumes "in_insertion_order i ids m" and "c \<notin> set ids"
  shows "in_insertion_order (Suc i) (ids @ [c]) (m(c \<mapsto> i))"
proof -
  from assms have d: "distinct ids" and dom: "set ids = dom m"
    and s: "sorted_wrt (inserted_before m) ids" and b: "\<forall>x j. m x = Some j \<longrightarrow> j < i"
    by (simp_all add: in_insertion_order_def)
  from assms(2) dom have none: "m c = None" by auto
  have s': "sorted_wrt (inserted_before (m(c \<mapsto> i))) ids"
    using s
  proof (rule sorted_wrt_mono_rel [rotated])
    fix x y assume "x \<in> set ids" "y \<in> set ids" "inserted_before m x y"
    with assms(2) show "inserted_before (m(c \<mapsto> i)) x y"
      by (auto simp: inserted_before_def)
  qed
  have last: "inserted_before (m(c \<mapsto> i)) x c" if "x \<in> set ids" for x
  proof -
    from that dom obtain j where j: "m x = Some j" by auto
    with b have "j < i" by blast
    with j that assms(2) show ?thesis by (auto simp: inserted_before_def)
  qed
  have b': "\<forall>x j. (m(c \<mapsto> i)) x = Some j \<longrightarrow> j < Suc i"
    using b by (auto simp: less_Suc_eq)
  from d assms(2) dom s' last b' show ?thesis
    unfolding in_insertion_order_def by (auto simp: sorted_wrt_append)
qed

lemma unsubscribe_in_insertion_order:
  assumes "in_insertion_order i ids m"
  shows "in_insertion_order (Suc i) (remove1 c ids) (m(c := None))"
proof -
  from assms have d: "distinct ids" and dom: "set ids = dom m"
    and s: "sorted_wrt (inserted_before m) ids" and b: "\<forall>x j. m x = Some j \<longrightarrow> j < i"
    by (simp_all add: in_insertion_order_def)
  from d have r: "remove1 c ids = filter (\<lambda>x. x \<noteq> c) ids"
    by (simp add: distinct_remove1_removeAll removeAll_filter_not_eq) (metis)
  have "sorted_wrt (inserted_before m) (filter (\<lambda>x. x \<noteq> c) ids)"
    using s by (rule sorted_wrt_filter)
  then have s': "sorted_wrt (inserted_before (m(c := None))) (filter (\<lambda>x. x \<noteq> c) ids)"
  proof (rule sorted_wrt_mono_rel [rotated])
    fix x y
    assume "x \<in> set (filter (\<lambda>x. x \<noteq> c) ids)" "y \<in> set (filter (\<lambda>x. x \<noteq> c) ids)"
      "inserted_before m x y"
    then show "inserted_before (m(c := None)) x y"
      by (auto simp: inserted_before_def)
  qed
  have dom': "set (remove1 c ids) = dom (m(c := None))"
    using d dom by auto
  have b': "\<forall>x j. (m(c := None)) x = Some j \<longrightarrow> j < Suc i"
    using b by (auto simp: less_Suc_eq split: if_splits)
  from d r s' dom' b' show ?thesis
    unfolding in_insertion_order_def by (simp del: fun_upd_apply) 
qed

lemma idle_in_insertion_order:
  "in_insertion_order i ids m \<Longrightarrow> in_insertion_order (Suc i) ids m"
  by (auto simp: in_insertion_order_def less_Suc_eq)

lemma run_in_insertion_order:
  "in_insertion_order i (users st) m \<Longrightarrow>
   in_insertion_order (i + length evs) (users (fst (run tz evs st))) (insertion_stamps i evs m)"
proof (induction evs arbitrary: i st m)
  case Nil
  then show ?case by simp
next
  case (Cons ev evs)
  obtain st1 eff1 where s: "step tz ev st = (st1, eff1)" by (cases "step tz ev st") auto
  let ?m1 = "case ev of
          Start_command c e \<Rightarrow> (if m c = None then m(c \<mapsto> i) else m)
        | Stop_command c e \<Rightarrow> m(c := None)
        | _ \<Rightarrow> m"
  from Cons.prems have dom: "set (users st) = dom m" by (simp add: in_insertion_order_def)
  have "in_insertion_order (Suc i) (users st1) ?m1"
  proof (cases ev)
    case (Tick response now)
    with step_users [OF s] Cons.prems show ?thesis by (simp add: idle_in_insertion_order)
  next
    case (Start_command c e)
    show ?thesis
    proof (cases "c \<in> set (users st)")
      case True
      with dom have "m c \<noteq> None" by auto
      with True Start_command step_users [OF s] Cons.prems show ?thesis
        by (auto simp: idle_in_insertion_order)
    next
      case False
      with dom have "m c = None" by auto
      with False Start_command step_users [OF s] Cons.prems show ?thesis
        by (simp add: subscribe_in_insertion_order)
    qed
  next
    case (Today_command c r e)
    with step_users [OF s] Cons.prems show ?thesis by (simp add: idle_in_insertion_order)
  next
    case (Stop_command c e)
    with step_users [OF s] Cons.prems show ?thesis
      by (simp add: unsubscribe_in_insertion_order)
  qed
  from Cons.IH [OF this] s show ?case
    by (auto split: prod.splits)
qed

lemma run_store:
  "load_users (users_file st) = Inr (users st) \<Longrightarrow>
   load_users (users_file (fst (run tz evs st))) = Inr (users (fst (run tz evs st)))"
proof (induction evs arbitrary: st)
  case Nil
  then show ?case by simp
next
  case (Cons ev evs)
  obtain st1 eff1 where s: "step tz ev st = (st1, eff1)" by (cases "step tz ev st") auto
  from Cons.IH [OF step_store [OF s Cons.prems]] s show ?case
    by (auto split: prod.splits)
qed

lemma init_store:
  "PrayerBot_init file = Inr st \<Longrightarrow> load_users (users_file st) = Inr (users st)"
  by (auto simp: PrayerBot_init_def and_then_def split: sum.splits)

lemma step_saves:
  "step tz ev st = (st', effects) \<Longrightarrow> users st' \<noteq> users st \<Longrightarrow>
   users_file st' = Some (Array (users st'))"
  by (cases ev)
    (auto simp: step_def start_def stop_def today_def save_users_def Let_def
      dest: check_prayer_times_users split: prod.splits if_splits option.splits)

text \<open>
  Claim C6 says that after every operation the list has no duplicates, from any
  startup. \<^verbatim>\<open>load_users\<close> takes the file as it is: started on a file that holds 7 twice,
  the bot has a list with 7 twice, and still has it after a \<^verbatim>\<open>/start\<close> from 8.
\<close>

theorem duplicates_in_file_survive_subscribe:
  "PrayerBot_init (Some (Array [7, 7])) =
     Inr \<lparr>users = [7, 7], sent_reminders = [], users_file = Some (Array [7, 7])\<rparr> \<and>
   users (fst (run TIMEZONE [Start_command 8 None]
     \<lparr>users = [7, 7], sent_reminders = [], users_file = Some (Array [7, 7])\<rparr>)) = [7, 7, 8] \<and>
   \<not> distinct [7, 7, 8 :: int]"
  by (simp add: PrayerBot_init_def load_users_def step_def start_def save_users_def
      raised_effect_def)

text \<open>
  Claim C6, amended. Let the bot start on no file or on a file whose array has no
  duplicates. Then after any sequence of events (subscribe and unsubscribe commands,
  with \<^verbatim>\<open>/today\<close> commands and ticks in between), so after each single operation:
  \<^item> the persisted store, as \<^verbatim>\<open>load_users\<close> reads it, equals the list in memory, and an
    operation that changed the list has written the file with exactly the new list;
  \<^item> the list has no duplicates;
  \<^item> the list holds the identifiers still subscribed, in the order of their insertion:
    an identifier inserted earlier stands before one inserted later.
\<close>

theorem subscriber_store_invariant:
  assumes "PrayerBot_init file = Inr st0" and "distinct (users st0)"
  shows "load_users (users_file (fst (run tz evs st0))) = Inr (users (fst (run tz evs st0))) \<and>
     distinct (users (fst (run tz evs st0))) \<and>
     set (users (fst (run tz evs st0))) =
       dom (insertion_stamps (length (users st0)) evs (initial_stamps (users st0))) \<and>
     sorted_wrt
       (inserted_before (insertion_stamps (length (users st0)) evs (initial_stamps (users st0))))
       (users (fst (run tz evs st0))) \<and>
     (\<forall>ev st st' effects.
        step tz ev st = (st', effects) \<and> users st' \<noteq> users st
        \<longrightarrow> users_file st' = Some (Array (users st')))"
proof -
  from run_in_insertion_order [OF initial_in_insertion_order [OF assms(2)],
      where tz = tz and evs = evs]
  have "in_insertion_order (length (users st0) + length evs) (users (fst (run tz evs st0)))
          (insertion_stamps (length (users st0)) evs (initial_stamps (users st0)))" .
  then have "distinct (users (fst (run tz evs st0))) \<and>
     set (users (fst (run tz evs st0))) =
       dom (insertion_stamps (length (users st0)) evs (initial_stamps (users st0))) \<and>
     sorted_wrt
       (inserted_before (insertion_stamps (length (users st0)) evs (initial_stamps (users st0))))
       (users (fst (run tz evs st0)))"
    by (simp add: in_insertion_order_def)
  with run_store [OF init_store [OF assms(1)], where tz = tz and evs = evs] step_saves
  show ?thesis by blast
qed

theorem subscriber_store_invariant_witness:
  "PrayerBot_init None = Inr \<lparr>users = [], sent_reminders = [], users_file = None\<rparr> \<and>
   distinct (users \<lparr>users = [], sent_reminders = [], users_file = None\<rparr>) \<and>
   fst (run TIMEZONE
      [Start_command 1 None, Start_command 2 None, Start_command 1 None, Stop_command 1 None,
       Start_command 3 None, Start_command 1 None]
      \<lparr>users = [], sent_reminders = [], users_file = None\<rparr>)
     = \<lparr>users = [2, 3, 1], sent_reminders = [], users_file = Some (Array [2, 3, 1])\<rparr> \<and>
   distinct [2, 3, 1 :: int] \<and>
   map (insertion_stamps 0
      [Start_command 1 None, Start_command 2 None, Start_command 1 None, Stop_command 1 None,
       Start_command 3 None, Start_command 1 None] (initial_stamps [])) [2, 3, 1]
     = [Some 1, Some 4, Some 5]"
proof -
  have i: "PrayerBot_init None = Inr \<lparr>users = [], sent_reminders = [], users_file = None\<rparr>"
    by (simp add: PrayerBot_init_def load_users_def)
  have r: "fst (run TIMEZONE
      [Start_command 1 None, Start_command 2 None, Start_command 1 None, Stop_command 1 None,
       Start_command 3 None, Start_command 1 None]
      \<lparr>users = [], sent_reminders = [], users_file = None\<rparr>)
     = \<lparr>users = [2, 3, 1], sent_reminders = [], users_file = Some (Array [2, 3, 1])\<rparr>"
    by (simp add: step_def start_def stop_def save_users_def raised_effect_def)
  have m: "map (insertion_stamps 0
      [Start_command 1 None, Start_command 2 None, Start_command 1 None, Stop_command 1 None,
       Start_command 3 None, Start_command 1 None] (initial_stamps [])) [2, 3, 1]
     = [Some 1, Some 4, Some 5]"
    by (simp add: initial_stamps_def)
  from subscriber_store_invariant [OF i, where tz = TIMEZONE and evs =
      "[Start_command 1 None, Start_command 2 None, Start_command 1 None, Stop_command 1 None,
       Start_command 3 None, Start_command 1 None]"] i r m
  show ?thesis by simp
qed

end
